theory Spec2Isabelle
  imports Complex_Main "HOL-Library.Sublist"
begin

section \<open>Thrown values and timer delays\<close>

text \<open>
  What a promise is rejected with: an \<open>Error\<close> object of one of the kinds below,
  \<open>null\<close>, \<open>undefined\<close>, or a value whose \<open>message\<close> cannot be read or put into a
  string (an accessor that throws, a symbol): \<open>Unprintable e\<close> is such a value, and
  \<open>e\<close> is what reading and formatting its message throws.
\<close>

datatype error =
  SyntaxError
  | TypeError
  | IOError
  | NavigationError string
  | ThrownNull
  | ThrownUndefined
  | Unprintable error

text \<open>
  Evaluating the template \<open>`... ${err.message} ...`\<close>: \<open>Some e\<close> when it throws \<open>e\<close>.
  Reading a property off \<open>null\<close> or \<open>undefined\<close> throws a \<open>TypeError\<close>.
\<close>

fun read_message :: "error \<Rightarrow> error option" where
  "read_message ThrownNull = Some TypeError"
| "read_message ThrownUndefined = Some TypeError"
| "read_message (Unprintable e) = Some e"
| "read_message _ = None"

text \<open>
  A delay is a double: an integer of milliseconds while it stays below \<open>2 ^ 1024\<close>,
  an infinity beyond, or \<open>NaN\<close>. \<open>Math.pow(2, k)\<close> is exact for \<open>k < 1024\<close> and
  \<open>Infinity\<close> from there on; the product of an integer with a power of two is exact
  until it overflows, and \<open>0 * Infinity\<close> is \<open>NaN\<close>.
\<close>

datatype delay = Ms int | MsInfinity | MsNegInfinity | MsNaN

definition Math_pow2 :: "nat \<Rightarrow> delay" where
  "Math_pow2 k = (if k < 1024 then Ms (2 ^ k) else MsInfinity)"

fun js_times :: "int \<Rightarrow> delay \<Rightarrow> delay" where
  "js_times b (Ms p) =
     (if \<bar>b * p\<bar> < 2 ^ 1024 then Ms (b * p)
      else if 0 < b * p then MsInfinity else MsNegInfinity)"
| "js_times b MsInfinity =
     (if b = 0 then MsNaN else if 0 < b then MsInfinity else MsNegInfinity)"
| "js_times b MsNegInfinity =
     (if b = 0 then MsNaN else if 0 < b then MsNegInfinity else MsInfinity)"
| "js_times b MsNaN = MsNaN"

text \<open>\<open>const waitMs = baseDelayMs * Math.pow(2, attempt - 1)\<close>, for \<open>attempt\<close> from 1.\<close>

definition waitMs :: "int \<Rightarrow> nat \<Rightarrow> delay" where
  "waitMs baseDelayMs attempt = js_times baseDelayMs (Math_pow2 (attempt - 1))"

text \<open>
  \<open>setTimeout(resolve, waitMs)\<close>: the milliseconds the timer of Node.js runs. A
  delay from 1 to \<open>2 ^ 31 - 1\<close> is kept; a delay below 1, above \<open>2 ^ 31 - 1\<close> or
  \<open>NaN\<close> is set to 1.
\<close>

definition TIMEOUT_MAX :: int where
  "TIMEOUT_MAX = 2 ^ 31 - 1"

fun setTimeout_ms :: "delay \<Rightarrow> int" where
  "setTimeout_ms (Ms after) = (if 1 \<le> after \<and> after \<le> TIMEOUT_MAX then after else 1)"
| "setTimeout_ms _ = 1"

section \<open>utils.js: retry with exponential backoff\<close>

text \<open>
  \<^verbatim>\<open>
  async function retry(fn, maxRetries = 3, baseDelayMs = 5000) {
    for (let attempt = 1; attempt <= maxRetries; attempt++) {
      try {
        return await fn();
      } catch (err) {
        if (attempt === maxRetries) {
          throw err;
        }
        const waitMs = baseDelayMs * Math.pow(2, attempt - 1);
        console.warn(`  Attempt ${attempt}/${maxRetries} failed: ${err.message}. Retrying in ${waitMs / 1000}s...`);
        await new Promise((resolve) => setTimeout(resolve, waitMs));
      }
    }
  }
  \<close>
  The operation \<open>fn\<close> is effectful, so it is given as the outcome of each of its
  invocations: \<open>fn k\<close> is what the \<open>k\<close>-th invocation does, \<open>Inl err\<close> when it throws
  \<open>err\<close> and \<open>Inr v\<close> when it resolves with \<open>v\<close>. A run of \<open>retry\<close> records how often
  the operation was invoked (\<open>calls\<close>) and the delays it passed to \<open>setTimeout\<close>
  and waited on, in order (\<open>waits\<close>). The promise of \<open>retry\<close> is rejected with \<open>err\<close>
  (\<open>Inl err\<close>), resolved with a value (\<open>Inr (Some v)\<close>) or, when the loop is left
  without a \<open>return\<close>, resolved with \<open>undefined\<close> (\<open>Inr None\<close>). On an attempt
  that fails and is not the last, the warning reads \<open>err.message\<close> before the timer
  is set: when that read throws, the promise is rejected with what it throws and no
  timer is set.
  \<open>maxRetries\<close> and \<open>baseDelayMs\<close> are integers that a double holds exactly, and
  \<open>maxRetries\<close> is at most \<open>2 ^ 53\<close>, the range in which \<open>attempt++\<close> counts
  exactly.
\<close>

record ('e, 'a) retry_run =
  outcome :: "'e + 'a option"
  calls :: nat
  waits :: "delay list"

function retry_loop ::
  "(nat \<Rightarrow> error + 'a) \<Rightarrow> int \<Rightarrow> int \<Rightarrow> nat \<Rightarrow> nat \<Rightarrow> delay list \<Rightarrow> (error, 'a) retry_run" where
  "retry_loop fn maxRetries baseDelayMs attempt n ws =
     (if int attempt \<le> maxRetries then
        (case fn (Suc n) of
           Inr v \<Rightarrow> \<lparr>outcome = Inr (Some v), calls = Suc n, waits = ws\<rparr>
         | Inl err \<Rightarrow>
             if int attempt = maxRetries
             then \<lparr>outcome = Inl err, calls = Suc n, waits = ws\<rparr>
             else
               (case read_message err of
                  Some thrown \<Rightarrow> \<lparr>outcome = Inl thrown, calls = Suc n, waits = ws\<rparr>
                | None \<Rightarrow>
                    retry_loop fn maxRetries baseDelayMs (Suc attempt) (Suc n)
                      (ws @ [waitMs baseDelayMs attempt])))
      else \<lparr>outcome = Inr None, calls = n, waits = ws\<rparr>)"
  by pat_completeness auto
termination
  by (relation "measure (\<lambda>(fn, maxRetries, baseDelayMs, attempt, n, ws).
        nat (maxRetries + 1 - int attempt))") auto

definition retry :: "(nat \<Rightarrow> error + 'a) \<Rightarrow> int \<Rightarrow> int \<Rightarrow> (error, 'a) retry_run" where
  "retry fn maxRetries baseDelayMs = retry_loop fn maxRetries baseDelayMs 1 0 []"

text \<open>The call sites of the repository use the default arguments.\<close>

definition retry_default :: "(nat \<Rightarrow> error + 'a) \<Rightarrow> (error, 'a) retry_run" where
  "retry_default fn = retry fn 3 5000"

text \<open>The timers of the attempts \<open>lo, lo + 1, ..., hi - 1\<close>.\<close>

definition backoff :: "int \<Rightarrow> nat \<Rightarrow> nat \<Rightarrow> delay list" where
  "backoff baseDelayMs lo hi = map (waitMs baseDelayMs) [lo..<hi]"

section \<open>JavaScript values\<close>

text \<open>
  Numbers the pipeline compares and divides are integers or \<open>NaN\<close> (what \<open>parseInt\<close>
  yields on text without digits, and what a comparison makes of \<open>undefined\<close>). A
  comparison with \<open>NaN\<close> on either side is false.
\<close>

datatype jsnum = NaN | Num int

fun js_le :: "jsnum \<Rightarrow> jsnum \<Rightarrow> bool" where
  "js_le (Num a) (Num b) = (a \<le> b)"
| "js_le _ _ = False"

fun js_ge :: "jsnum \<Rightarrow> jsnum \<Rightarrow> bool" where
  "js_ge (Num a) (Num b) = (a \<ge> b)"
| "js_ge _ _ = False"

text \<open>A property read from an object that does not define it is \<open>undefined\<close> (\<open>None\<close>).\<close>

fun ToNumber :: "int option \<Rightarrow> jsnum" where
  "ToNumber None = NaN"
| "ToNumber (Some n) = Num n"

text \<open>\<open>Math.ceil(a / b)\<close> for a positive integer \<open>b\<close>.\<close>

fun Math_ceil_div :: "jsnum \<Rightarrow> int \<Rightarrow> jsnum" where
  "Math_ceil_div (Num a) b = Num (- ((- a) div b))"
| "Math_ceil_div NaN b = NaN"

text \<open>
  The fields \<open>extractReviewsFromPage\<close> reads off one review block of the rendered
  page, and the record it pushes for the block (\<open>rating\<close> is \<open>None\<close> for the empty
  string the source stores when no rating is found).
\<close>

record block =
  reviewer_name :: string
  reviewer_location :: string
  rating :: "int option"
  review_date :: string
  usage_duration :: string
  review_text :: string
  developer_response :: string
  developer_response_date :: string

record review =
  app_name :: string
  app_slug :: string
  body :: block

text \<open>An entity as \<open>extractAppsFromPage\<close> of discoverApps.js builds it.\<close>

record app =
  name :: string
  slug :: string
  description :: string
  review_count :: nat

text \<open>
  The values the checkpoint files hold and the pipeline passes around: \<open>null\<close>,
  strings, arrays, review objects and entity objects.
\<close>

datatype jsval = Null | Str string | Arr "jsval list" | ReviewObj review | AppObj app

section \<open>utils.js: the checkpoint store\<close>

text \<open>
  A path is the list of its segments from the root. \<open>path.join(dir, fname)\<close> (of
  POSIX, under an absolute \<open>dir\<close>) splits \<open>fname\<close> at every \<open>/\<close>, skips the empty
  segments and the segments \<open>.\<close>, and lets a segment \<open>..\<close> drop the segment before it
  (none at the root); a \<open>fname\<close> that ends in \<open>/\<close> gives a path that ends in \<open>/\<close>,
  kept here as a last empty segment, which names no regular file. Two names are the
  same file exactly when they join to the same path: there are no links on the disk,
  and the file system tells upper case from lower case.
\<close>

fun segments :: "string \<Rightarrow> string \<Rightarrow> string list" where
  "segments cur [] = [cur]"
| "segments cur (c # cs) =
     (if c = CHR ''/'' then cur # segments [] cs else segments (cur @ [c]) cs)"

definition path_step :: "string list \<Rightarrow> string \<Rightarrow> string list" where
  "path_step dir seg =
     (if seg = [] \<or> seg = ''.'' then dir
      else if seg = ''..'' then butlast dir
      else dir @ [seg])"

definition path_join :: "string list \<Rightarrow> string \<Rightarrow> string list" where
  "path_join dir fname =
     (let joined = foldl path_step dir (segments [] fname)
      in if fname \<noteq> [] \<and> last fname = CHR ''/'' then joined @ [[]] else joined)"

text \<open>
  What lies at a path: text of a JSON value (\<open>Json v\<close>), text that \<open>JSON.parse\<close>
  rejects (\<open>Malformed\<close>, for instance a truncated write), or an entry that exists and
  cannot be read as a file (\<open>Unreadable\<close>, for instance a directory). The disk knows
  the directory of the project, which holds \<open>src\<close> and \<open>data\<close>:
  \<^verbatim>\<open>
  const DATA_DIR = path.join(__dirname, '..', 'data');
  const REVIEWS_DIR = path.join(DATA_DIR, 'reviews');
  \<close>
\<close>

datatype file_node = Json jsval | Malformed | Unreadable

record disk =
  project_dir :: "string list"
  files :: "string list \<rightharpoonup> file_node"

definition DATA_DIR :: "disk \<Rightarrow> string list" where
  "DATA_DIR d = project_dir d @ [''data'']"

definition REVIEWS_DIR :: "disk \<Rightarrow> string list" where
  "REVIEWS_DIR d = path_join (DATA_DIR d) ''reviews''"

text \<open>
  What lies under a checkpoint name in the data directory, and what lies at the per-app
  file of a slug (\<open>path.join(REVIEWS_DIR, `${slug}.json`)\<close>).
\<close>

definition data_dir :: "disk \<Rightarrow> string \<rightharpoonup> file_node" where
  "data_dir d filename = files d (path_join (DATA_DIR d) filename)"

definition reviews_dir :: "disk \<Rightarrow> string \<rightharpoonup> file_node" where
  "reviews_dir d appSlug = files d (path_join (REVIEWS_DIR d) (appSlug @ ''.json''))"

text \<open>
  \<^verbatim>\<open>
  function loadCheckpoint(filename, defaultValue = null) {
    const filePath = path.join(DATA_DIR, filename);
    if (fs.existsSync(filePath)) {
      return JSON.parse(fs.readFileSync(filePath, 'utf-8'));
    }
    return defaultValue;
  }
  function saveCheckpoint(filename, data) {
    const filePath = path.join(DATA_DIR, filename);
    fs.mkdirSync(path.dirname(filePath), { recursive: true });
    fs.writeFileSync(filePath, JSON.stringify(data, null, 2), 'utf-8');
  }
  function saveAppReviews(slug, reviews) {
    const filePath = path.join(REVIEWS_DIR, `${slug}.json`);
    fs.mkdirSync(path.dirname(filePath), { recursive: true });
    fs.writeFileSync(filePath, JSON.stringify(reviews, null, 2), 'utf-8');
  }
  \<close>
  A write puts the text of the value at the path and leaves a directory at every path
  above it.
\<close>

definition loadCheckpoint :: "disk \<Rightarrow> string \<Rightarrow> jsval \<Rightarrow> error + jsval" where
  "loadCheckpoint d filename defaultValue =
     (case data_dir d filename of
        Some (Json v) \<Rightarrow> Inr v
      | Some Malformed \<Rightarrow> Inl SyntaxError
      | Some Unreadable \<Rightarrow> Inl IOError
      | None \<Rightarrow> Inr defaultValue)"

definition write_file :: "disk \<Rightarrow> string list \<Rightarrow> file_node \<Rightarrow> disk" where
  "write_file d filePath node =
     d\<lparr>files := (\<lambda>p. if p = filePath then Some node
                      else if strict_prefix p filePath then Some Unreadable
                      else files d p)\<rparr>"

definition saveCheckpoint :: "disk \<Rightarrow> string \<Rightarrow> jsval \<Rightarrow> disk" where
  "saveCheckpoint d filename data = write_file d (path_join (DATA_DIR d) filename) (Json data)"

definition saveAppReviews :: "disk \<Rightarrow> string \<Rightarrow> jsval \<Rightarrow> disk" where
  "saveAppReviews d appSlug reviews =
     write_file d (path_join (REVIEWS_DIR d) (appSlug @ ''.json'')) (Json reviews)"

text \<open>
  What a run does to the outside, in order: it launches and closes the browser,
  fetches the reviews of an entity (\<open>Scrape\<close>) and writes files. The writes of a run
  applied to the disk it started from give the disk it leaves; a run killed after some
  of its events leaves the disk of that prefix. Launching the browser and writing a
  file are taken to succeed.
\<close>

datatype event =
  Launch
  | Close
  | Scrape string
  | SaveCheckpoint string jsval
  | SaveAppReviews string jsval

fun apply_event :: "disk \<Rightarrow> event \<Rightarrow> disk" where
  "apply_event d (SaveCheckpoint filename data) = saveCheckpoint d filename data"
| "apply_event d (SaveAppReviews appSlug reviews) = saveAppReviews d appSlug reviews"
| "apply_event d _ = d"

definition disk_after :: "disk \<Rightarrow> event list \<Rightarrow> disk" where
  "disk_after d evs = foldl apply_event d evs"

section \<open>config.js\<close>

text \<open>
  \<open>PAGINATION.reviewsPerPage\<close>; and the two properties of \<open>SEARCH\<close> that
  \<open>collectAllApps\<close> reads. The \<open>SEARCH\<close> object of config.js defines \<open>url\<close>,
  \<open>appCard\<close>, \<open>appNameAttr\<close>, \<open>appHandleAttr\<close>, \<open>appLinkAttr\<close> and
  \<open>loadMoreButton\<close>: it defines neither \<open>maxPages\<close> nor \<open>nextPageLink\<close>
  (\<open>nextPageLink\<close> is a property of \<open>REVIEWS\<close>), so both read as \<open>undefined\<close>.
\<close>

definition reviewsPerPage :: int where
  "reviewsPerPage = 10"

record search_config =
  SEARCH_maxPages :: "int option"
  SEARCH_nextPageLink :: "string option"

definition SEARCH :: search_config where
  "SEARCH = \<lparr>SEARCH_maxPages = None, SEARCH_nextPageLink = None\<rparr>"

section \<open>scrapeReviews.js: the reviews of one entity\<close>

text \<open>
  The remote source as one call of \<open>scrapeAppReviews\<close> sees it: \<open>goto n k\<close> is the
  outcome of the \<open>k\<close>-th \<open>page.goto\<close> to review page \<open>n\<close>, \<open>fromJsonLd\<close> and
  \<open>fromHeading\<close> are what the two lookups of \<open>getTotalReviewCount\<close> find on the
  first page (\<open>None\<close> is \<open>null\<close>; the JSON-LD count goes through \<open>parseInt\<close>
  unchecked and may be \<open>NaN\<close>, the heading count is \<open>null\<close> when it is \<open>NaN\<close>),
  \<open>blocks n\<close> are the review blocks of page \<open>n\<close> and \<open>nextLink n\<close> says whether
  page \<open>n\<close> shows \<open>[data-pagination-controls] a[rel="next"]\<close>. The random delays
  between requests change no result and are left out; opening and closing the page
  and querying it are taken to succeed, so \<open>page.goto\<close> is the one call that can
  throw.
\<close>

record app_site =
  goto :: "nat \<Rightarrow> nat \<Rightarrow> error + unit"
  fromJsonLd :: "jsnum option"
  fromHeading :: "int option"
  blocks :: "nat \<Rightarrow> block list"
  nextLink :: "nat \<Rightarrow> bool"

definition getTotalReviewCount :: "app_site \<Rightarrow> jsnum option" where
  "getTotalReviewCount site =
     (case fromJsonLd site of
        Some n \<Rightarrow> Some n
      | None \<Rightarrow> map_option Num (fromHeading site))"

definition extractReviewsFromPage :: "app_site \<Rightarrow> nat \<Rightarrow> string \<Rightarrow> string \<Rightarrow> review list" where
  "extractReviewsFromPage site pageNum appName appSlug =
     map (\<lambda>b. \<lparr>app_name = appName, app_slug = appSlug, body = b\<rparr>) (blocks site pageNum)"

text \<open>
  \<^verbatim>\<open>
  while (pageNum <= maxPages) {
    if (pageNum > 1) {
      const pageUrl = REVIEWS.urlPage(appSlug, pageNum);
      await retry(async () => { await page.goto(pageUrl, ...); });
      await delay(delayMin, delayMax);
    }
    const batch = await extractReviewsFromPage(page, appName, appSlug);
    allReviews.push(...batch);
    if (batch.length === 0) break;
    if (totalPages != null && pageNum >= totalPages) break;
    const nextLink = await page.$('[data-pagination-controls] a[rel="next"]');
    if (!nextLink) break;
    pageNum++;
  }
  return allReviews;
  \<close>
  A run records the pages the loop reads, in order (\<open>visited\<close>): every page but the
  first is navigated to by the loop, the first was opened before the loop to read the
  count.
\<close>

record app_run =
  scraped :: "error + review list"
  visited :: "nat list"

function pages_loop ::
  "app_site \<Rightarrow> app \<Rightarrow> jsnum option \<Rightarrow> jsnum \<Rightarrow> nat \<Rightarrow> review list \<Rightarrow> nat list \<Rightarrow> app_run" where
  "pages_loop site a totalPages maxPages pageNum allReviews vs =
     (if js_le (Num (int pageNum)) maxPages then
        (case (if pageNum > 1 then outcome (retry_default (goto site pageNum))
               else Inr None) of
           Inl err \<Rightarrow> \<lparr>scraped = Inl err, visited = vs\<rparr>
         | Inr _ \<Rightarrow>
             (let batch = extractReviewsFromPage site pageNum (name a) (slug a) in
              if length batch = 0
                then \<lparr>scraped = Inr (allReviews @ batch), visited = vs @ [pageNum]\<rparr>
              else if (case totalPages of None \<Rightarrow> False
                       | Some tp \<Rightarrow> js_ge (Num (int pageNum)) tp)
                then \<lparr>scraped = Inr (allReviews @ batch), visited = vs @ [pageNum]\<rparr>
              else if \<not> nextLink site pageNum
                then \<lparr>scraped = Inr (allReviews @ batch), visited = vs @ [pageNum]\<rparr>
              else pages_loop site a totalPages maxPages (Suc pageNum)
                     (allReviews @ batch) (vs @ [pageNum])))
      else \<lparr>scraped = Inr allReviews, visited = vs\<rparr>)"
  by pat_completeness auto
termination
  by (relation "measure (\<lambda>(site, a, totalPages, maxPages, pageNum, allReviews, vs).
        (case maxPages of NaN \<Rightarrow> 0 | Num m \<Rightarrow> nat (m + 1 - int pageNum)))")
     (auto split: jsnum.splits)

text \<open>
  \<^verbatim>\<open>
  await retry(async () => { await page.goto(url, ...); });
  await delay(delayMin, delayMax);
  const totalCount = await getTotalReviewCount(page);
  const totalPages = totalCount != null
    ? Math.ceil(totalCount / PAGINATION.reviewsPerPage)
    : null;
  const allReviews = [];
  let pageNum = 1;
  const maxPages = totalPages != null ? totalPages : 500;
  \<close>
\<close>

definition totalPages_of :: "jsnum option \<Rightarrow> jsnum option" where
  "totalPages_of totalCount = map_option (\<lambda>c. Math_ceil_div c reviewsPerPage) totalCount"

definition scrapeAppReviews :: "app_site \<Rightarrow> app \<Rightarrow> app_run" where
  "scrapeAppReviews site a =
     (case outcome (retry_default (goto site 1)) of
        Inl err \<Rightarrow> \<lparr>scraped = Inl err, visited = []\<rparr>
      | Inr _ \<Rightarrow>
          (let totalCount = getTotalReviewCount site;
               totalPages = totalPages_of totalCount;
               maxPages = (case totalPages of Some tp \<Rightarrow> tp | None \<Rightarrow> Num 500)
           in pages_loop site a totalPages maxPages 1 [] []))"

section \<open>scrapeReviews.js: all entities\<close>

text \<open>
  A JavaScript \<open>Set\<close> in insertion order. Primitives are members by value; an object
  or array read from a file is a member only as itself, so it never equals the value
  looked up or added later.
\<close>

fun primitive :: "jsval \<Rightarrow> bool" where
  "primitive Null = True"
| "primitive (Str s) = True"
| "primitive _ = False"

definition Set_has :: "jsval list \<Rightarrow> jsval \<Rightarrow> bool" where
  "Set_has st v = (primitive v \<and> v \<in> set st)"

definition Set_add :: "jsval list \<Rightarrow> jsval \<Rightarrow> jsval list" where
  "Set_add st v = (if Set_has st v then st else st @ [v])"

definition new_Set :: "jsval list \<Rightarrow> jsval list" where
  "new_Set xs = foldl Set_add [] xs"

text \<open>
  A JavaScript \<open>Map\<close> in insertion order: \<open>set\<close> on a key that is present replaces
  the value where it stands, on a new key it appends. The keys of \<open>bySlug\<close> are
  strings or \<open>undefined\<close> (\<open>None\<close>).
\<close>

type_synonym bySlug_map = "(string option \<times> jsval list) list"

fun Map_has :: "bySlug_map \<Rightarrow> string option \<Rightarrow> bool" where
  "Map_has [] k = False"
| "Map_has ((k', v) # m) k = (k' = k \<or> Map_has m k)"

fun Map_get :: "bySlug_map \<Rightarrow> string option \<Rightarrow> jsval list" where
  "Map_get [] k = []"
| "Map_get ((k', v) # m) k = (if k' = k then v else Map_get m k)"

fun Map_set :: "bySlug_map \<Rightarrow> string option \<Rightarrow> jsval list \<Rightarrow> bySlug_map" where
  "Map_set [] k v = [(k, v)]"
| "Map_set ((k', v') # m) k v = (if k' = k then (k, v) # m else (k', v') # Map_set m k v)"

text \<open>\<open>bySlug.forEach((arr) => flat.push(...arr))\<close>\<close>

definition flatten :: "bySlug_map \<Rightarrow> jsval list" where
  "flatten bySlug = concat (map snd bySlug)"

text \<open>
  \<^verbatim>\<open>
  allReviews.forEach((r) => {
    if (!bySlug.has(r.app_slug)) bySlug.set(r.app_slug, []);
    bySlug.get(r.app_slug).push(r);
  });
  \<close>
  Reading \<open>app_slug\<close> off \<open>null\<close> throws; off a string, an array or an object
  without the property it is \<open>undefined\<close>. \<open>forEach\<close> exists on arrays only.
\<close>

fun get_app_slug :: "jsval \<Rightarrow> error + string option" where
  "get_app_slug Null = Inl TypeError"
| "get_app_slug (ReviewObj r) = Inr (Some (app_slug r))"
| "get_app_slug _ = Inr None"

fun group_by_slug :: "jsval list \<Rightarrow> bySlug_map \<Rightarrow> error + bySlug_map" where
  "group_by_slug [] bySlug = Inr bySlug"
| "group_by_slug (r # rs) bySlug =
     (case get_app_slug r of
        Inl err \<Rightarrow> Inl err
      | Inr k \<Rightarrow>
          (let m = (if \<not> Map_has bySlug k then Map_set bySlug k [] else bySlug)
           in group_by_slug rs (Map_set m k (Map_get m k @ [r]))))"

fun forEach_by_slug :: "jsval \<Rightarrow> error + bySlug_map" where
  "forEach_by_slug (Arr allReviews) = group_by_slug allReviews []"
| "forEach_by_slug _ = Inl TypeError"

text \<open>\<open>Array.isArray(scraped) ? scraped : []\<close>\<close>

fun array_or_empty :: "jsval \<Rightarrow> jsval list" where
  "array_or_empty (Arr xs) = xs"
| "array_or_empty _ = []"

record options =
  headless :: bool
  resume :: bool
  startFromSlug :: "string option"

text \<open>The defaults of \<open>const { headless = true, resume = true, startFromSlug = null }\<close>.\<close>

definition default_options :: options where
  "default_options = \<lparr>headless = True, resume = True, startFromSlug = None\<rparr>"

record all_run =
  returned :: "error + jsval"
  events :: "event list"

text \<open>
  \<^verbatim>\<open>
  for (let i = 0; i < toProcess.length; i++) {
    const app = toProcess[i];
    const reviews = await scrapeAppReviews(browser, app, options);
    bySlug.set(app.slug, reviews);
    scrapedSet.add(app.slug);
    saveCheckpoint('scraped_app_slugs.json', [...scrapedSet]);
    saveAppReviews(app.slug, reviews);
    const flat = [];
    bySlug.forEach((arr) => flat.push(...arr));
    saveCheckpoint('all_reviews.json', flat);
  }
  const flat = [];
  bySlug.forEach((arr) => flat.push(...arr));
  return flat;
  \<close>
  inside \<open>try { ... } finally { await browser.close(); }\<close>. \<open>web i\<close> is the remote
  source while the \<open>i\<close>-th entity of \<open>toProcess\<close> is scraped.
\<close>

fun process_loop ::
  "(nat \<Rightarrow> app_site) \<Rightarrow> nat \<Rightarrow> app list \<Rightarrow> bySlug_map \<Rightarrow> jsval list \<Rightarrow> event list \<Rightarrow> all_run" where
  "process_loop web i [] bySlug scrapedSet evs =
     \<lparr>returned = Inr (Arr (flatten bySlug)), events = evs @ [Close]\<rparr>"
| "process_loop web i (a # toProcess) bySlug scrapedSet evs =
     (case scraped (scrapeAppReviews (web i) a) of
        Inl err \<Rightarrow> \<lparr>returned = Inl err, events = evs @ [Scrape (slug a), Close]\<rparr>
      | Inr reviews \<Rightarrow>
          (let bySlug' = Map_set bySlug (Some (slug a)) (map ReviewObj reviews);
               scrapedSet' = Set_add scrapedSet (Str (slug a))
           in process_loop web (Suc i) toProcess bySlug' scrapedSet'
                (evs @ [Scrape (slug a),
                        SaveCheckpoint ''scraped_app_slugs.json'' (Arr scrapedSet'),
                        SaveAppReviews (slug a) (Arr (map ReviewObj reviews)),
                        SaveCheckpoint ''all_reviews.json'' (Arr (flatten bySlug'))])))"

text \<open>
  \<^verbatim>\<open>
  const toProcess = startFromSlug
    ? apps.filter((a) => a.slug === startFromSlug || !scrapedSet.has(a.slug))
    : apps.filter((a) => !scrapedSet.has(a.slug));
  \<close>
  (\<open>null\<close> and the empty string are falsy.)
\<close>

definition select_toProcess :: "options \<Rightarrow> jsval list \<Rightarrow> app list \<Rightarrow> app list" where
  "select_toProcess opts scrapedSet apps =
     (case startFromSlug opts of
        None \<Rightarrow> filter (\<lambda>a. \<not> Set_has scrapedSet (Str (slug a))) apps
      | Some s \<Rightarrow>
          if s = [] then filter (\<lambda>a. \<not> Set_has scrapedSet (Str (slug a))) apps
          else filter (\<lambda>a. slug a = s \<or> \<not> Set_has scrapedSet (Str (slug a))) apps)"

text \<open>
  \<^verbatim>\<open>
  const scraped = resume ? loadCheckpoint('scraped_app_slugs.json', []) : [];
  const scrapedSet = new Set(Array.isArray(scraped) ? scraped : []);
  const toProcess = ...;
  if (toProcess.length === 0 && apps.length > 0) {
    return loadCheckpoint('all_reviews.json', []);
  }
  const browser = await puppeteer.launch(...);
  const allReviews = resume ? loadCheckpoint('all_reviews.json', []) : [];
  const bySlug = new Map();
  allReviews.forEach(...);
  try { ... } finally { await browser.close(); }
  \<close>
  The second \<open>loadCheckpoint\<close> and the \<open>forEach\<close> stand between the launch and the
  \<open>try\<close>: when one of them throws, the browser is not closed.
\<close>

definition scrapeAllReviews :: "disk \<Rightarrow> (nat \<Rightarrow> app_site) \<Rightarrow> app list \<Rightarrow> options \<Rightarrow> all_run" where
  "scrapeAllReviews d web apps opts =
     (case (if resume opts then loadCheckpoint d ''scraped_app_slugs.json'' (Arr [])
            else Inr (Arr [])) of
        Inl err \<Rightarrow> \<lparr>returned = Inl err, events = []\<rparr>
      | Inr scrapedDoc \<Rightarrow>
          (let scrapedSet = new_Set (array_or_empty scrapedDoc);
               toProcess = select_toProcess opts scrapedSet apps
           in if length toProcess = 0 \<and> length apps > 0
              then \<lparr>returned = loadCheckpoint d ''all_reviews.json'' (Arr []), events = []\<rparr>
              else
                (case (if resume opts then loadCheckpoint d ''all_reviews.json'' (Arr [])
                       else Inr (Arr [])) of
                   Inl err \<Rightarrow> \<lparr>returned = Inl err, events = [Launch]\<rparr>
                 | Inr allReviews \<Rightarrow>
                     (case forEach_by_slug allReviews of
                        Inl err \<Rightarrow> \<lparr>returned = Inl err, events = [Launch]\<rparr>
                      | Inr bySlug \<Rightarrow>
                          process_loop web 0 toProcess bySlug scrapedSet [Launch]))))"

section \<open>discoverApps.js\<close>

text \<open>
  The catalog as discovery sees it: \<open>listing url\<close> is the rendered listing at
  \<open>url\<close>, with the entities \<open>extractAppsFromPage\<close> returns for it (\<open>cards\<close>, the
  \<open>apps\<close> of its result) and, for a selector, the \<open>href\<close> of the first element
  \<open>document.querySelector\<close> finds (\<open>None\<close> when it finds none); \<open>navigate url k\<close>
  is the outcome of the \<open>k\<close>-th \<open>page.goto\<close> to \<open>url\<close>.
\<close>

record listing_page =
  cards :: "app list"
  query_href :: "string \<Rightarrow> string option"

record catalog =
  listing :: "string \<Rightarrow> listing_page"
  navigate :: "string \<Rightarrow> nat \<Rightarrow> error + unit"

definition URL :: string where
  "URL = ''https://apps.shopify.com/categories/finding-products-sourcing-options-print-on-demand-pod/all?search_id=8ee3e6f6-78fe-45cb-9330-e4117f636c4f&surface_detail=finding-products-sourcing-options-print-on-demand-pod&surface_inter_position=2&surface_type=category&surface_version=redesign&page=1''"

text \<open>
  \<open>document.querySelector(selector)\<close> turns its argument into a string: \<open>undefined\<close>
  becomes the type selector \<open>undefined\<close>.
\<close>

fun selector_text :: "string option \<Rightarrow> string" where
  "selector_text None = ''undefined''"
| "selector_text (Some s) = s"

text \<open>
  \<^verbatim>\<open>
  let newCount = 0;
  for (const app of batch) {
    if (!seen.has(app.slug)) {
      seen.add(app.slug);
      allApps.push(app);
      newCount++;
    }
  }
  \<close>
\<close>

fun merge_batch :: "app list \<Rightarrow> app list \<Rightarrow> string list \<Rightarrow> nat \<Rightarrow> app list \<times> string list \<times> nat" where
  "merge_batch [] allApps seen newCount = (allApps, seen, newCount)"
| "merge_batch (a # batch) allApps seen newCount =
     (if slug a \<notin> set seen
      then merge_batch batch (allApps @ [a]) (seen @ [slug a]) (Suc newCount)
      else merge_batch batch allApps seen newCount)"

text \<open>
  \<^verbatim>\<open>
  async function collectAllApps(page, baseUrl) {
    const allApps = [];
    const seen = new Set();
    let pageNum = 1;
    const maxPages = SEARCH.maxPages;
    while (pageNum <= maxPages) {
      ...
      const result = await extractAppsFromPage(page);
      const batch = result.apps;
      ... (the merge above)
      if (newCount === 0 && pageNum > 1) break;
      const nextPageUrl = await page.evaluate((selector) => {
        const nextLink = document.querySelector(selector);
        return nextLink ? nextLink.href : null;
      }, SEARCH.nextPageLink).catch(() => null);
      if (!nextPageUrl) { log(`  No more pages found.`); break; }
      pageNum++;
      await retry(async () => { await page.goto(nextPageUrl, ...); });
      await delay(DELAY.minMs, DELAY.maxMs);
    }
    return allApps;
  }
  \<close>
  A run records the numbers of the listing pages extracted inside the loop
  (\<open>listed\<close>) and the address the page is left at (\<open>current\<close>).
\<close>

record collect_run =
  collected :: "error + app list"
  listed :: "nat list"
  current :: string

function collect_loop ::
  "search_config \<Rightarrow> catalog \<Rightarrow> string \<Rightarrow> nat \<Rightarrow> app list \<Rightarrow> string list \<Rightarrow> nat list \<Rightarrow> collect_run" where
  "collect_loop cfg site url pageNum allApps seen vs =
     (if js_le (Num (int pageNum)) (ToNumber (SEARCH_maxPages cfg)) then
        (case merge_batch (cards (listing site url)) allApps seen 0 of
           (allApps', seen', newCount) \<Rightarrow>
             if newCount = 0 \<and> pageNum > 1
               then \<lparr>collected = Inr allApps', listed = vs @ [pageNum], current = url\<rparr>
             else
               (case query_href (listing site url) (selector_text (SEARCH_nextPageLink cfg)) of
                  None \<Rightarrow> \<lparr>collected = Inr allApps', listed = vs @ [pageNum], current = url\<rparr>
                | Some nextPageUrl \<Rightarrow>
                    if nextPageUrl = []
                      then \<lparr>collected = Inr allApps', listed = vs @ [pageNum], current = url\<rparr>
                    else
                      (case outcome (retry_default (navigate site nextPageUrl)) of
                         Inl err \<Rightarrow>
                           \<lparr>collected = Inl err, listed = vs @ [pageNum], current = url\<rparr>
                       | Inr _ \<Rightarrow>
                           collect_loop cfg site nextPageUrl (Suc pageNum) allApps' seen'
                             (vs @ [pageNum]))))
      else \<lparr>collected = Inr allApps, listed = vs, current = url\<rparr>)"
  by pat_completeness auto
termination
  by (relation "measure (\<lambda>(cfg, site, url, pageNum, allApps, seen, vs).
        (case ToNumber (SEARCH_maxPages cfg) of NaN \<Rightarrow> 0
         | Num m \<Rightarrow> nat (m + 1 - int pageNum)))")
     (auto split: jsnum.splits)

definition collectAllApps :: "search_config \<Rightarrow> catalog \<Rightarrow> string \<Rightarrow> collect_run" where
  "collectAllApps cfg site baseUrl = collect_loop cfg site baseUrl 1 [] [] []"

text \<open>
  \<^verbatim>\<open>
  const unique = [];
  const bySlug = new Map();
  for (const a of apps) {
    if (!bySlug.has(a.slug)) {
      bySlug.set(a.slug, a);
      unique.push(a);
    }
  }
  \<close>
\<close>

fun unique_loop :: "app list \<Rightarrow> app list \<Rightarrow> (string \<times> app) list \<Rightarrow> app list" where
  "unique_loop [] unique bySlug = unique"
| "unique_loop (a # apps) unique bySlug =
     (if map_of bySlug (slug a) = None
      then unique_loop apps (unique @ [a]) (bySlug @ [(slug a, a)])
      else unique_loop apps unique bySlug)"

text \<open>\<open>checkpoint && Array.isArray(checkpoint) && checkpoint.length > 0\<close>\<close>

fun nonempty_array :: "jsval \<Rightarrow> bool" where
  "nonempty_array (Arr (x # xs)) = True"
| "nonempty_array _ = False"

text \<open>
  \<^verbatim>\<open>
  async function discoverApps(options = {}) {
    const { headless = true, resume = true } = options;
    const checkpoint = resume ? loadCheckpoint('apps.json') : null;
    if (checkpoint && Array.isArray(checkpoint) && checkpoint.length > 0) {
      return checkpoint;
    }
    const browser = await puppeteer.launch(...);
    try {
      const page = await browser.newPage();
      ...
      const url = URL;
      await retry(async () => { await page.goto(url, ...); });
      ...
      const apps = await collectAllApps(page, url);
      if (apps.length === 0) {
        const result = await extractAppsFromPage(page);
        apps.push(...result.apps);
      }
      ... (the loop above)
      saveCheckpoint('apps.json', unique);
      return unique;
    } finally {
      await browser.close();
    }
  }
  \<close>
  The configuration is a parameter of the model; the program runs with \<open>SEARCH\<close>.
\<close>

definition discoverApps :: "search_config \<Rightarrow> disk \<Rightarrow> catalog \<Rightarrow> options \<Rightarrow> all_run" where
  "discoverApps cfg d site opts =
     (case (if resume opts then loadCheckpoint d ''apps.json'' Null else Inr Null) of
        Inl err \<Rightarrow> \<lparr>returned = Inl err, events = []\<rparr>
      | Inr checkpoint \<Rightarrow>
          if nonempty_array checkpoint then \<lparr>returned = Inr checkpoint, events = []\<rparr>
          else
            (case outcome (retry_default (navigate site URL)) of
               Inl err \<Rightarrow> \<lparr>returned = Inl err, events = [Launch, Close]\<rparr>
             | Inr _ \<Rightarrow>
                 (let run = collectAllApps cfg site URL in
                  case collected run of
                    Inl err \<Rightarrow> \<lparr>returned = Inl err, events = [Launch, Close]\<rparr>
                  | Inr apps \<Rightarrow>
                      (let apps' = (if length apps = 0
                                    then apps @ cards (listing site (current run)) else apps);
                           unique = unique_loop apps' [] []
                       in \<lparr>returned = Inr (Arr (map AppObj unique)),
                           events = [Launch,
                                     SaveCheckpoint ''apps.json'' (Arr (map AppObj unique)),
                                     Close]\<rparr>))))"

section \<open>Observers of a run and sample inputs\<close>

text \<open>The slugs a run fetched, in order.\<close>

fun scraped_slugs :: "event list \<Rightarrow> string list" where
  "scraped_slugs [] = []"
| "scraped_slugs (Scrape s # evs) = s # scraped_slugs evs"
| "scraped_slugs (_ # evs) = scraped_slugs evs"







definition sample_block :: "string \<Rightarrow> block" where
  "sample_block txt =
     \<lparr>reviewer_name = ''Ann'', reviewer_location = ''Canada'', rating = Some 5,
      review_date = ''May 1, 2024'', usage_duration = ''About 1 year using the app'',
      review_text = txt, developer_response = [], developer_response_date = []\<rparr>"

definition sample_app :: "string \<Rightarrow> string \<Rightarrow> app" where
  "sample_app appName appSlug =
     \<lparr>name = appName, slug = appSlug, description = [], review_count = 3\<rparr>"

definition printful :: app where
  "printful = sample_app ''Printful'' ''printful''"

definition sample_review :: "app \<Rightarrow> string \<Rightarrow> review" where
  "sample_review a txt = \<lparr>app_name = name a, app_slug = slug a, body = sample_block txt\<rparr>"

text \<open>
  A disk with nothing on it, and a disk on which the file of a checkpoint name holds
  the given text.
\<close>

definition empty_disk :: disk where
  "empty_disk = \<lparr>project_dir = [''srv'', ''shopify-reviews-scraper''], files = Map.empty\<rparr>"

definition put_file :: "disk \<Rightarrow> string \<Rightarrow> file_node \<Rightarrow> disk" where
  "put_file d filename node = write_file d (path_join (DATA_DIR d) filename) node"

text \<open>Every navigation succeeds at its first attempt.\<close>

definition reachable :: "'k \<Rightarrow> nat \<Rightarrow> error + unit" where
  "reachable k attempt = Inr ()"

text \<open>
  A source that claims 25 reviews and shows one review and a next link on every page,
  and one that claims 1000 reviews and has two reviews on its first page and none
  after it.
\<close>

definition endless_site :: app_site where
  "endless_site =
     \<lparr>goto = reachable, fromJsonLd = Some (Num 25), fromHeading = None,
      blocks = (\<lambda>n. [sample_block ''fine'']), nextLink = (\<lambda>n. True)\<rparr>"

definition two_review_site :: app_site where
  "two_review_site =
     \<lparr>goto = reachable, fromJsonLd = Some (Num 1000), fromHeading = None,
      blocks = (\<lambda>n. if n = 1 then [sample_block ''good'', sample_block ''bad''] else []),
      nextLink = (\<lambda>n. True)\<rparr>"

text \<open>
  A catalog of two listing pages: the first lists \<open>a\<close> and \<open>b\<close> and links to the
  second as its next page, the second lists \<open>b\<close> and \<open>c\<close> and has no next link.
  And a configuration that defines the two properties \<open>collectAllApps\<close> reads.
\<close>

definition second_page_url :: string where
  "second_page_url = ''https://apps.shopify.com/categories/pod/all?page=2''"

definition next_selector :: string where
  "next_selector = ''a[rel=next]''"

definition two_page_catalog :: catalog where
  "two_page_catalog =
     \<lparr>listing = (\<lambda>url.
        if url = URL then
          \<lparr>cards = [sample_app ''A'' ''a'', sample_app ''B'' ''b''],
           query_href = (\<lambda>sel. if sel = next_selector then Some second_page_url else None)\<rparr>
        else if url = second_page_url then
          \<lparr>cards = [sample_app ''B'' ''b'', sample_app ''C'' ''c''],
           query_href = (\<lambda>sel. None)\<rparr>
        else \<lparr>cards = [], query_href = (\<lambda>sel. None)\<rparr>),
      navigate = reachable\<rparr>"

definition paging_config :: search_config where
  "paging_config = \<lparr>SEARCH_maxPages = Some 50, SEARCH_nextPageLink = Some next_selector\<rparr>"

text \<open>
  A source without reviews and without a count; a disk whose combined checkpoint
  holds two reviews of the entity \<open>b\<close> and which has no list of scraped slugs; and a
  disk on which \<open>a\<close> and \<open>b\<close> are marked scraped, with one review each in the
  combined checkpoint.
\<close>

definition no_review_site :: app_site where
  "no_review_site =
     \<lparr>goto = reachable, fromJsonLd = None, fromHeading = None,
      blocks = (\<lambda>n. []), nextLink = (\<lambda>n. False)\<rparr>"

definition stale_disk :: disk where
  "stale_disk =
     put_file empty_disk ''all_reviews.json''
       (Json (Arr [ReviewObj (sample_review (sample_app ''B'' ''b'') ''one''),
                   ReviewObj (sample_review (sample_app ''B'' ''b'') ''two'')]))"

definition resumed_disk :: disk where
  "resumed_disk =
     put_file
       (put_file empty_disk ''scraped_app_slugs.json'' (Json (Arr [Str ''a'', Str ''b''])))
       ''all_reviews.json''
       (Json (Arr [ReviewObj (sample_review (sample_app ''A'' ''a'') ''one''),
                   ReviewObj (sample_review (sample_app ''B'' ''b'') ''two'')]))"

section \<open>Properties of retry\<close>

declare retry_loop.simps [simp del]

lemma retry_loop_all_fail:
  assumes "\<And>k. attempt \<le> k \<Longrightarrow> k \<le> m \<Longrightarrow> fn k = Inl (err k)"
    and "\<And>k. attempt \<le> k \<Longrightarrow> k < m \<Longrightarrow> read_message (err k) = None"
    and "attempt \<le> m" and "Suc n = attempt"
  shows "retry_loop fn (int m) b attempt n ws =
           \<lparr>outcome = Inl (err m), calls = m, waits = ws @ backoff b attempt m\<rparr>"
  using assms
proof (induction "m - attempt" arbitrary: attempt n ws)
  case 0
  then have eq: "attempt = m" and sn: "Suc n = m" by simp_all
  have e: "fn m = Inl (err m)" using 0 eq by simp
  show ?case unfolding eq
    by (subst retry_loop.simps) (simp add: e sn backoff_def)
next
  case (Suc d)
  then have lt: "attempt < m" by simp
  have sn: "Suc n = attempt" using Suc.prems by simp
  have e: "fn (Suc n) = Inl (err attempt)" using Suc.prems(1) [of attempt] lt sn by simp
  have r: "read_message (err attempt) = None" using Suc.prems(2) [of attempt] lt by simp
  have step: "retry_loop fn (int m) b attempt n ws =
      retry_loop fn (int m) b (Suc attempt) (Suc n) (ws @ [waitMs b attempt])"
    using lt e r by (subst retry_loop.simps) simp
  have IH: "retry_loop fn (int m) b (Suc attempt) (Suc n) (ws @ [waitMs b attempt]) =
      \<lparr>outcome = Inl (err m), calls = m,
       waits = (ws @ [waitMs b attempt]) @ backoff b (Suc attempt) m\<rparr>"
    using Suc.hyps(2) Suc.prems lt sn
    by (intro Suc.hyps(1)) auto
  have "[waitMs b attempt] @ backoff b (Suc attempt) m = backoff b attempt m"
    using lt by (simp add: backoff_def upt_conv_Cons)
  then show ?case using step IH by simp
qed

lemma waitMs_exact:
  assumes "1 \<le> attempt" and "attempt - 1 < 1024" and "\<bar>b\<bar> * 2 ^ (attempt - 1) < 2 ^ 1024"
  shows "waitMs b attempt = Ms (b * 2 ^ (attempt - 1))"
proof -
  have "\<bar>b * 2 ^ (attempt - 1)\<bar> = \<bar>b\<bar> * 2 ^ (attempt - 1)" by (simp add: abs_mult)
  then show ?thesis using assms by (simp add: waitMs_def Math_pow2_def)
qed

text \<open>
  C5 (as amended). An operation that fails on every one of its attempts, with errors
  whose message can be read, is invoked exactly \<open>maxRetries\<close> times by \<open>retry\<close>, for
  an attempt count from 1 to \<open>2 ^ 53\<close> and a base delay of at most \<open>2 ^ 53\<close> in
  magnitude; the delays passed to \<open>setTimeout\<close> between
  consecutive attempts are the doubles \<open>baseDelayMs * Math.pow(2, attempt - 1)\<close> for
  \<open>attempt = 1, ..., maxRetries - 1\<close> and nothing else (no jitter), which are the
  integers \<open>baseDelayMs * 2 ^ (attempt - 1)\<close> as long as they stay below \<open>2 ^ 1024\<close>,
  and the timers run that many milliseconds as long as the delays lie between 1 and
  \<open>2 ^ 31 - 1\<close>; and the promise is rejected with the error of the last attempt,
  unchanged. With three attempts and a base delay of 1000 ms the timers run 1000 ms
  and 2000 ms.
\<close>

theorem retry_all_attempts_fail:
  assumes "1 \<le> maxRetries" and "maxRetries \<le> 2 ^ 53" and "\<bar>baseDelayMs\<bar> \<le> 2 ^ 53"
    and "\<forall>k. 1 \<le> int k \<and> int k \<le> maxRetries \<longrightarrow> fn k = Inl (err k)"
    and "\<forall>k. 1 \<le> int k \<and> int k < maxRetries \<longrightarrow> read_message (err k) = None"
  shows "retry fn maxRetries baseDelayMs =
           \<lparr>outcome = Inl (err (nat maxRetries)),
            calls = nat maxRetries,
            waits = map (waitMs baseDelayMs) [1..<nat maxRetries]\<rparr>
         \<and> (maxRetries \<le> 1025 \<and> \<bar>baseDelayMs\<bar> * 2 ^ (nat maxRetries - 2) < 2 ^ 1024 \<longrightarrow>
              waits (retry fn maxRetries baseDelayMs) =
                map (\<lambda>attempt. Ms (baseDelayMs * 2 ^ (attempt - 1))) [1..<nat maxRetries])
         \<and> (1 \<le> baseDelayMs \<and> baseDelayMs * 2 ^ (nat maxRetries - 2) \<le> TIMEOUT_MAX \<longrightarrow>
              map setTimeout_ms (waits (retry fn maxRetries baseDelayMs)) =
                map (\<lambda>attempt. baseDelayMs * 2 ^ (attempt - 1)) [1..<nat maxRetries])
         \<and> (maxRetries = 3 \<and> baseDelayMs = 1000 \<longrightarrow>
              waits (retry fn maxRetries baseDelayMs) = [Ms 1000, Ms 2000]
              \<and> map setTimeout_ms (waits (retry fn maxRetries baseDelayMs)) = [1000, 2000]
              \<and> calls (retry fn maxRetries baseDelayMs) = 3)"
proof -
  define m where "m = nat maxRetries"
  have m: "int m = maxRetries" "1 \<le> m" using assms(1) by (simp_all add: m_def)
  have fails: "\<And>k. 1 \<le> k \<Longrightarrow> k \<le> m \<Longrightarrow> fn k = Inl (err k)"
    using assms(4) m by auto
  have reads: "\<And>k. 1 \<le> k \<Longrightarrow> k < m \<Longrightarrow> read_message (err k) = None"
    using assms(5) m by auto
  have run: "retry_loop fn (int m) baseDelayMs 1 0 [] =
      \<lparr>outcome = Inl (err m), calls = m, waits = [] @ backoff baseDelayMs 1 m\<rparr>"
    using fails reads m by (intro retry_loop_all_fail) auto
  have first: "retry fn maxRetries baseDelayMs =
           \<lparr>outcome = Inl (err (nat maxRetries)),
            calls = nat maxRetries,
            waits = map (waitMs baseDelayMs) [1..<nat maxRetries]\<rparr>"
    using run m by (simp add: retry_def backoff_def m_def)
  have exact: "map (waitMs baseDelayMs) [1..<m] =
               map (\<lambda>attempt. Ms (baseDelayMs * 2 ^ (attempt - 1))) [1..<m]"
    if small: "maxRetries \<le> 1025" "\<bar>baseDelayMs\<bar> * 2 ^ (m - 2) < 2 ^ 1024"
  proof (rule map_cong [OF refl])
    fix k assume "k \<in> set [1..<m]"
    then have k: "1 \<le> k" "k < m" by simp_all
    have le: "k - 1 \<le> m - 2" using k by simp
    have "m \<le> 1025" using small(1) m(1) by linarith
    then have lt: "k - 1 < 1024" using k by simp
    have "(2::int) ^ (k - 1) \<le> 2 ^ (m - 2)" using le by (simp add: power_increasing)
    then have "\<bar>baseDelayMs\<bar> * 2 ^ (k - 1) \<le> \<bar>baseDelayMs\<bar> * 2 ^ (m - 2)"
      by (simp add: mult_left_mono)
    then have "\<bar>baseDelayMs\<bar> * 2 ^ (k - 1) < 2 ^ 1024" using small(2) by linarith
    then show "waitMs baseDelayMs k = Ms (baseDelayMs * 2 ^ (k - 1))"
      using k(1) lt by (intro waitMs_exact)
  qed
  have timers: "map setTimeout_ms (map (waitMs baseDelayMs) [1..<m]) =
               map (\<lambda>attempt. baseDelayMs * 2 ^ (attempt - 1)) [1..<m]"
    if small: "1 \<le> baseDelayMs" "baseDelayMs * 2 ^ (m - 2) \<le> TIMEOUT_MAX"
  proof -
    have "setTimeout_ms (waitMs baseDelayMs k) = baseDelayMs * 2 ^ (k - 1)"
      if "k \<in> set [1..<m]" for k
    proof -
      have k: "1 \<le> k" "k < m" using that by simp_all
      have le: "k - 1 \<le> m - 2" using k by simp
      have "(2::int) ^ (k - 1) \<le> 2 ^ (m - 2)" using le by (simp add: power_increasing)
      then have "baseDelayMs * 2 ^ (k - 1) \<le> baseDelayMs * 2 ^ (m - 2)"
        using small(1) by (simp add: mult_left_mono)
      then have upper: "baseDelayMs * 2 ^ (k - 1) \<le> TIMEOUT_MAX" using small(2) by linarith
      have "1 * (2::int) ^ (k - 1) \<le> baseDelayMs * 2 ^ (k - 1)"
        using small(1) by (intro mult_right_mono) simp_all
      then have low: "(2::int) ^ (k - 1) \<le> baseDelayMs * 2 ^ (k - 1)" by simp
      have below: "(2::int) ^ (k - 1) < 2 ^ 31"
        using low upper unfolding TIMEOUT_MAX_def by linarith
      have "k - 1 < 31"
      proof (rule ccontr)
        assume "\<not> k - 1 < 31"
        then have "31 \<le> k - 1" by simp
        then have "(2::int) ^ 31 \<le> 2 ^ (k - 1)" by (intro power_increasing) simp_all
        then show False using below by linarith
      qed
      then have lt: "k - 1 < 1024" by simp
      have "(1::int) \<le> 2 ^ (k - 1)" by simp
      then have pos: "1 \<le> baseDelayMs * 2 ^ (k - 1)" using low by linarith
      have "(2::int) ^ 31 - 1 < 2 ^ 1024" by simp
      moreover have "\<bar>baseDelayMs\<bar> = baseDelayMs" using small(1) by simp
      ultimately have "\<bar>baseDelayMs\<bar> * 2 ^ (k - 1) < 2 ^ 1024"
        using upper unfolding TIMEOUT_MAX_def by linarith
      then have "waitMs baseDelayMs k = Ms (baseDelayMs * 2 ^ (k - 1))"
        using k(1) lt by (intro waitMs_exact)
      then show ?thesis using upper pos by simp
    qed
    then show ?thesis by simp
  qed
  have three: "[1..<nat 3] = [1, 2]" by (simp add: upt_conv_Cons)
  have w1: "waitMs 1000 1 = Ms 1000" and w2: "waitMs 1000 2 = Ms 2000"
    by (simp_all add: waitMs_def Math_pow2_def)
  have ex: "waits (retry fn maxRetries baseDelayMs) = [Ms 1000, Ms 2000]
            \<and> map setTimeout_ms (waits (retry fn maxRetries baseDelayMs)) = [1000, 2000]
            \<and> calls (retry fn maxRetries baseDelayMs) = 3"
    if "maxRetries = 3" "baseDelayMs = 1000"
    using first that three w1 w2 by (simp add: TIMEOUT_MAX_def)
  have waits_run: "waits (retry fn maxRetries baseDelayMs) = map (waitMs baseDelayMs) [1..<m]"
    using first by (simp add: m_def)
  show ?thesis using first exact timers ex unfolding waits_run unfolding m_def by blast
qed

theorem retry_all_attempts_fail_witness:
  "1 \<le> (3::int)
   \<and> retry (\<lambda>k. Inl (NavigationError ''timeout'') :: error + unit) 3 1000 =
       \<lparr>outcome = Inl (NavigationError ''timeout''), calls = 3,
        waits = [Ms 1000, Ms 2000]\<rparr>
   \<and> map setTimeout_ms
        (waits (retry (\<lambda>k. Inl (NavigationError ''timeout'') :: error + unit) 3 1000))
       = [1000, 2000]"
  using retry_all_attempts_fail [of 3 1000
      "\<lambda>k. Inl (NavigationError ''timeout'') :: error + unit"
      "\<lambda>k. NavigationError ''timeout''"]
  by (simp add: upt_conv_Cons waitMs_def Math_pow2_def TIMEOUT_MAX_def)

text \<open>
  The claim as stated fails in three ways. With an attempt count below 1 nothing is
  propagated: the promise resolves with \<open>undefined\<close>. An operation that rejects
  with \<open>null\<close> is invoked once, not three times: reading \<open>err.message\<close> for the
  warning throws a \<open>TypeError\<close>, which replaces the error of the operation, and no
  timer is set. And with a base delay of \<open>2 ^ 31\<close> ms the two delays are above what a
  timer takes, so both timers run 1 ms.
\<close>

theorem retry_all_attempts_fail_counterexample:
  "retry (\<lambda>k. Inl (NavigationError ''timeout'') :: error + unit) 0 1000 =
       \<lparr>outcome = Inr None, calls = 0, waits = []\<rparr>
   \<and> retry (\<lambda>k. Inl ThrownNull :: error + unit) 3 1000 =
       \<lparr>outcome = Inl TypeError, calls = 1, waits = []\<rparr>
   \<and> map setTimeout_ms
        (waits (retry (\<lambda>k. Inl (NavigationError ''timeout'') :: error + unit) 3 (2 ^ 31)))
       = [1, 1]"
proof -
  have a: "retry (\<lambda>k. Inl (NavigationError ''timeout'') :: error + unit) 0 1000 =
       \<lparr>outcome = Inr None, calls = 0, waits = []\<rparr>"
    unfolding retry_def by (subst retry_loop.simps) simp
  have b: "retry (\<lambda>k. Inl ThrownNull :: error + unit) 3 1000 =
       \<lparr>outcome = Inl TypeError, calls = 1, waits = []\<rparr>"
    unfolding retry_def by (subst retry_loop.simps) simp
  have "retry_loop (\<lambda>k. Inl (NavigationError ''timeout'') :: error + unit) (int 3) (2 ^ 31)
          1 0 [] =
        \<lparr>outcome = Inl (NavigationError ''timeout''), calls = 3,
         waits = [] @ backoff (2 ^ 31) 1 3\<rparr>"
    by (intro retry_loop_all_fail [where err = "\<lambda>k. NavigationError ''timeout''"]) simp_all
  then have c: "map setTimeout_ms
        (waits (retry (\<lambda>k. Inl (NavigationError ''timeout'') :: error + unit) 3 (2 ^ 31)))
       = [1, 1]"
    by (simp add: retry_def backoff_def upt_conv_Cons waitMs_def Math_pow2_def TIMEOUT_MAX_def)
  show ?thesis using a b c by simp
qed

text \<open>
  C10. When \<open>maxRetries\<close> is less than 1 the attempt loop is never entered: the
  operation is not invoked, no timer is set, and the promise resolves with
  \<open>undefined\<close> instead of being rejected.
\<close>

theorem retry_no_attempts:
  assumes "maxRetries < 1"
  shows "retry fn maxRetries baseDelayMs = \<lparr>outcome = Inr None, calls = 0, waits = []\<rparr>"
  using assms unfolding retry_def by (subst retry_loop.simps) simp

theorem retry_no_attempts_witness:
  "(0::int) < 1
   \<and> retry (\<lambda>k. Inl (NavigationError ''boom'') :: error + unit) 0 5000 =
       \<lparr>outcome = Inr None, calls = 0, waits = []\<rparr>"
  using retry_no_attempts [of 0 "\<lambda>k. Inl (NavigationError ''boom'') :: error + unit" 5000]
  by simp

section \<open>Properties of paths and writes\<close>

lemma segments_no_slash: "CHR ''/'' \<notin> set fname \<Longrightarrow> segments cur fname = [cur @ fname]"
  by (induction fname arbitrary: cur) auto

lemma path_join_plain:
  assumes "CHR ''/'' \<notin> set fname" and "fname \<noteq> []" and "fname \<noteq> ''.''" and "fname \<noteq> ''..''"
  shows "path_join dir fname = dir @ [fname]"
proof -
  have "last fname \<in> set fname" using assms(2) by simp
  then have "last fname \<noteq> CHR ''/''" using assms(1) by metis
  then show ?thesis
    using assms by (simp add: path_join_def segments_no_slash path_step_def)
qed

lemma checkpoint_paths [simp]:
  "path_join dir ''apps.json'' = dir @ [''apps.json'']"
  "path_join dir ''scraped_app_slugs.json'' = dir @ [''scraped_app_slugs.json'']"
  "path_join dir ''all_reviews.json'' = dir @ [''all_reviews.json'']"
  "path_join dir ''reviews'' = dir @ [''reviews'']"
  by (simp_all add: path_join_plain)

lemma project_dir_write_file [simp]: "project_dir (write_file d p node) = project_dir d"
  by (simp add: write_file_def)

lemma DATA_DIR_write_file [simp]: "DATA_DIR (write_file d p node) = DATA_DIR d"
  by (simp add: DATA_DIR_def)

lemma REVIEWS_DIR_write_file [simp]: "REVIEWS_DIR (write_file d p node) = REVIEWS_DIR d"
  by (simp add: REVIEWS_DIR_def)

lemma files_write_file:
  "files (write_file d p node) q =
     (if q = p then Some node else if strict_prefix q p then Some Unreadable else files d q)"
  by (simp add: write_file_def)

lemma strict_prefix_snoc_same [simp]: "\<not> strict_prefix (xs @ [x]) (xs @ [y])"
  by (auto simp: strict_prefix_def)

section \<open>Properties of scrapeAppReviews\<close>

lemma Math_ceil_div_ceiling:
  "Math_ceil_div (Num a) b = Num \<lceil>real_of_int a / real_of_int b\<rceil>"
  by (simp add: ceiling_divide_eq_div)

declare pages_loop.simps [simp del]

lemma pages_loop_visited_bound:
  "list_all (\<lambda>n. js_le (Num (int n)) maxPages) vs \<Longrightarrow>
   list_all (\<lambda>n. js_le (Num (int n)) maxPages)
     (visited (pages_loop site a totalPages maxPages pageNum allReviews vs))"
proof (induction site a totalPages maxPages pageNum allReviews vs rule: pages_loop.induct)
  case (1 site a totalPages maxPages pageNum allReviews vs)
  show ?case
  proof (cases "js_le (Num (int pageNum)) maxPages")
    case False
    then show ?thesis using 1(2) by (subst pages_loop.simps) simp
  next
    case True
    show ?thesis
      apply (subst pages_loop.simps)
      using True 1
      apply (auto simp: Let_def split: sum.splits option.splits)
      done
  qed
qed

lemma pages_loop_go_before_last:
  "list_all (\<lambda>n. blocks site n \<noteq> []
        \<and> \<not> (case totalPages of None \<Rightarrow> False | Some t \<Rightarrow> js_ge (Num (int n)) t)
        \<and> nextLink site n) vs \<Longrightarrow>
   list_all (\<lambda>n. blocks site n \<noteq> []
        \<and> \<not> (case totalPages of None \<Rightarrow> False | Some t \<Rightarrow> js_ge (Num (int n)) t)
        \<and> nextLink site n)
     (butlast (visited (pages_loop site a totalPages maxPages pageNum allReviews vs)))"
proof (induction site a totalPages maxPages pageNum allReviews vs rule: pages_loop.induct)
  case (1 site a totalPages maxPages pageNum allReviews vs)
  let ?go = "\<lambda>n. blocks site n \<noteq> []
        \<and> \<not> (case totalPages of None \<Rightarrow> False | Some t \<Rightarrow> js_ge (Num (int n)) t)
        \<and> nextLink site n"
  have bl: "list_all ?go (butlast vs)"
    using 1(2) by (auto simp: list_all_iff dest: in_set_butlastD)
  show ?case
  proof (cases "js_le (Num (int pageNum)) maxPages")
    case False
    then show ?thesis using bl by (subst pages_loop.simps) simp
  next
    case True
    show ?thesis
    proof (cases "if pageNum > 1 then outcome (retry_default (goto site pageNum)) else Inr None")
      case (Inl err)
      then show ?thesis using True bl by (subst pages_loop.simps) simp
    next
      case (Inr v)
      show ?thesis
      proof (cases "?go pageNum")
        case False
        then show ?thesis using True Inr 1(2)
          by (subst pages_loop.simps)
             (auto simp: Let_def extractReviewsFromPage_def split: option.splits)
      next
        case go: True
        then have unfold: "pages_loop site a totalPages maxPages pageNum allReviews vs
            = pages_loop site a totalPages maxPages (Suc pageNum)
                (allReviews @ extractReviewsFromPage site pageNum (name a) (slug a))
                (vs @ [pageNum])"
          using True Inr
          by (subst pages_loop.simps)
             (auto simp: Let_def extractReviewsFromPage_def split: option.splits)
        have "list_all ?go (vs @ [pageNum])" using 1(2) go by simp
        then show ?thesis
          unfolding unfold
          using 1(1) [OF True Inr refl] go
          by (auto simp: extractReviewsFromPage_def split: option.splits)
      qed
    qed
  qed
qed


lemma visited_scrapeAppReviews_bound:
  assumes "getTotalReviewCount site = Some c"
  shows "list_all (\<lambda>n. js_le (Num (int n)) (Math_ceil_div c reviewsPerPage))
           (visited (scrapeAppReviews site a))"
  using assms pages_loop_visited_bound [of "Math_ceil_div c reviewsPerPage" "[]" site a]
  by (auto simp: scrapeAppReviews_def totalPages_of_def Let_def split: sum.splits)

lemma pages_loop_continue:
  assumes "js_le (Num (int p)) mp"
    and "outcome (retry_default (goto site p)) = Inr v"
    and "blocks site p \<noteq> []"
    and "\<not> (case tp of None \<Rightarrow> False | Some t \<Rightarrow> js_ge (Num (int p)) t)"
    and "nextLink site p"
  shows "pages_loop site a tp mp p acc vs =
         pages_loop site a tp mp (Suc p)
           (acc @ extractReviewsFromPage site p (name a) (slug a)) (vs @ [p])"
  using assms by (subst pages_loop.simps) (simp add: Let_def extractReviewsFromPage_def)

lemma pages_loop_stop_empty:
  assumes "js_le (Num (int p)) mp"
    and "outcome (retry_default (goto site p)) = Inr v"
    and "blocks site p = []"
  shows "pages_loop site a tp mp p acc vs = \<lparr>scraped = Inr acc, visited = vs @ [p]\<rparr>"
  using assms by (subst pages_loop.simps) (simp add: Let_def extractReviewsFromPage_def)

lemma pages_loop_stop_total:
  assumes "js_le (Num (int p)) mp"
    and "outcome (retry_default (goto site p)) = Inr v"
    and "js_ge (Num (int p)) t"
  shows "pages_loop site a (Some t) mp p acc vs =
         \<lparr>scraped = Inr (acc @ extractReviewsFromPage site p (name a) (slug a)),
          visited = vs @ [p]\<rparr>"
  using assms by (subst pages_loop.simps) (simp add: Let_def extractReviewsFromPage_def)

text \<open>
  C6. When \<open>getTotalReviewCount\<close> yields a count, \<open>totalPages\<close> is
  \<open>ceil(totalCount / reviewsPerPage)\<close> and the loop reads no page with a number
  above it, whatever the pages show. With a count of 25 and 10 reviews per page, a
  source whose every page has reviews and (wrongly) a next link is read on pages 1, 2
  and 3 and no further.
\<close>

theorem scrapeAppReviews_stops_at_totalPages:
  assumes "getTotalReviewCount site = Some (Num totalCount)"
  shows "totalPages_of (getTotalReviewCount site)
           = Some (Num \<lceil>real_of_int totalCount / real_of_int reviewsPerPage\<rceil>)
       \<and> list_all (\<lambda>n. int n \<le> \<lceil>real_of_int totalCount / real_of_int reviewsPerPage\<rceil>)
             (visited (scrapeAppReviews site a))
       \<and> (totalCount = 25 \<and> (\<forall>n. blocks site n \<noteq> []) \<and> (\<forall>n. nextLink site n)
            \<and> (\<forall>n. outcome (retry_default (goto site n)) = Inr (Some ()))
          \<longrightarrow> visited (scrapeAppReviews site a) = [1, 2, 3]
              \<and> scraped (scrapeAppReviews site a)
                  = Inr (extractReviewsFromPage site 1 (name a) (slug a)
                         @ extractReviewsFromPage site 2 (name a) (slug a)
                         @ extractReviewsFromPage site 3 (name a) (slug a)))"
proof -
  have tp: "totalPages_of (getTotalReviewCount site)
           = Some (Num \<lceil>real_of_int totalCount / real_of_int reviewsPerPage\<rceil>)"
    using assms by (simp add: totalPages_of_def ceiling_divide_eq_div)
  have "list_all (\<lambda>n. js_le (Num (int n)) (Math_ceil_div (Num totalCount) reviewsPerPage))
           (visited (scrapeAppReviews site a))"
    using assms by (rule visited_scrapeAppReviews_bound)
  then have bound: "list_all (\<lambda>n. int n \<le> \<lceil>real_of_int totalCount / real_of_int reviewsPerPage\<rceil>)
             (visited (scrapeAppReviews site a))"
    by (simp add: ceiling_divide_eq_div)
  have ex: "visited (scrapeAppReviews site a) = [1, 2, 3]
              \<and> scraped (scrapeAppReviews site a)
                  = Inr (extractReviewsFromPage site 1 (name a) (slug a)
                         @ extractReviewsFromPage site 2 (name a) (slug a)
                         @ extractReviewsFromPage site 3 (name a) (slug a))"
    if h: "totalCount = 25" "\<forall>n. blocks site n \<noteq> []" "\<forall>n. nextLink site n"
       "\<forall>n. outcome (retry_default (goto site n)) = Inr (Some ())"
  proof -
    let ?x = "\<lambda>n. extractReviewsFromPage site n (name a) (slug a)"
    have start: "scrapeAppReviews site a = pages_loop site a (Some (Num 3)) (Num 3) 1 [] []"
      using assms h by (simp add: scrapeAppReviews_def totalPages_of_def reviewsPerPage_def)
    have s1: "pages_loop site a (Some (Num 3)) (Num 3) 1 [] [] =
              pages_loop site a (Some (Num 3)) (Num 3) (Suc 1) ([] @ ?x 1) ([] @ [1])"
      using h by (intro pages_loop_continue) auto
    have s2: "pages_loop site a (Some (Num 3)) (Num 3) (Suc 1) ([] @ ?x 1) ([] @ [1]) =
              pages_loop site a (Some (Num 3)) (Num 3) (Suc (Suc 1))
                (([] @ ?x 1) @ ?x (Suc 1)) (([] @ [1]) @ [Suc 1])"
      using h by (intro pages_loop_continue) auto
    have s3: "pages_loop site a (Some (Num 3)) (Num 3) (Suc (Suc 1))
                (([] @ ?x 1) @ ?x (Suc 1)) (([] @ [1]) @ [Suc 1]) =
              \<lparr>scraped = Inr ((([] @ ?x 1) @ ?x (Suc 1)) @ ?x (Suc (Suc 1))),
               visited = (([] @ [1]) @ [Suc 1]) @ [Suc (Suc 1)]\<rparr>"
      using h by (intro pages_loop_stop_total) auto
    have run: "scrapeAppReviews site a =
              \<lparr>scraped = Inr ((([] @ ?x 1) @ ?x (Suc 1)) @ ?x (Suc (Suc 1))),
               visited = (([] @ [1]) @ [Suc 1]) @ [Suc (Suc 1)]\<rparr>"
      by (simp only: start s1 s2 s3)
    show ?thesis by (simp add: run numeral_2_eq_2 numeral_3_eq_3)
  qed
  show ?thesis using tp bound ex by blast
qed

lemma visited_split_last:
  assumes "list_all P (butlast xs)" and "xs = ps @ n # qs" and "\<not> P n"
  shows "qs = []"
proof (rule ccontr)
  assume "qs \<noteq> []"
  then have "butlast xs = ps @ n # butlast qs" using assms(2) by (simp add: butlast_append)
  then show False using assms(1,3) by simp
qed

lemma pages_loop_visited_range:
  "\<exists>k. visited (pages_loop site a totalPages maxPages pageNum allReviews vs)
          = vs @ [pageNum..<pageNum + k]
      \<and> (js_le (Num (int pageNum)) maxPages
          \<and> (\<exists>rs. scraped (pages_loop site a totalPages maxPages pageNum allReviews vs) = Inr rs)
          \<longrightarrow> 0 < k)"
proof (induction site a totalPages maxPages pageNum allReviews vs rule: pages_loop.induct)
  case (1 site a totalPages maxPages pageNum allReviews vs)
  let ?go = "\<lambda>n. blocks site n \<noteq> []
        \<and> \<not> (case totalPages of None \<Rightarrow> False | Some t \<Rightarrow> js_ge (Num (int n)) t)
        \<and> nextLink site n"
  show ?case
  proof (cases "js_le (Num (int pageNum)) maxPages")
    case False
    then show ?thesis by (subst (1 2) pages_loop.simps) (simp add: exI [of _ 0])
  next
    case True
    show ?thesis
    proof (cases "if pageNum > 1 then outcome (retry_default (goto site pageNum)) else Inr None")
      case (Inl err)
      then have "pages_loop site a totalPages maxPages pageNum allReviews vs
          = \<lparr>scraped = Inl err, visited = vs\<rparr>"
        using True by (subst pages_loop.simps) simp
      then show ?thesis by (simp add: exI [of _ 0])
    next
      case (Inr v)
      show ?thesis
      proof (cases "?go pageNum")
        case False
        then have "visited (pages_loop site a totalPages maxPages pageNum allReviews vs)
            = vs @ [pageNum]"
          using True Inr
          by (subst pages_loop.simps)
             (auto simp: Let_def extractReviewsFromPage_def split: option.splits)
        then show ?thesis by (intro exI [of _ 1]) simp
      next
        case go: True
        then have unfold: "pages_loop site a totalPages maxPages pageNum allReviews vs
            = pages_loop site a totalPages maxPages (Suc pageNum)
                (allReviews @ extractReviewsFromPage site pageNum (name a) (slug a))
                (vs @ [pageNum])"
          using True Inr
          by (subst pages_loop.simps)
             (auto simp: Let_def extractReviewsFromPage_def split: option.splits)
        have nonempty: "length (extractReviewsFromPage site pageNum (name a) (slug a)) \<noteq> 0"
          using go by (simp add: extractReviewsFromPage_def)
        have ntotal: "\<not> (case totalPages of None \<Rightarrow> False
                         | Some tp \<Rightarrow> js_ge (Num (int pageNum)) tp)"
          using go by simp
        have nlink: "\<not> \<not> nextLink site pageNum" using go by simp
        from 1(1) [OF True Inr refl nonempty ntotal nlink] obtain k where
          k: "visited (pages_loop site a totalPages maxPages (Suc pageNum)
                (allReviews @ extractReviewsFromPage site pageNum (name a) (slug a))
                (vs @ [pageNum])) = (vs @ [pageNum]) @ [Suc pageNum..<Suc pageNum + k]"
          by blast
        have "(vs @ [pageNum]) @ [Suc pageNum..<Suc pageNum + k] = vs @ [pageNum..<pageNum + Suc k]"
          by (simp add: upt_conv_Cons)
        then show ?thesis unfolding unfold using k by (intro exI [of _ "Suc k"]) simp
      qed
    qed
  qed
qed

lemma pages_loop_last_page:
  assumes "scraped (pages_loop site a totalPages maxPages pageNum allReviews vs) = Inr rs"
  shows "visited (pages_loop site a totalPages maxPages pageNum allReviews vs) = vs
       \<or> (\<exists>ps n. visited (pages_loop site a totalPages maxPages pageNum allReviews vs) = ps @ [n]
             \<and> (blocks site n = []
                \<or> (case totalPages of None \<Rightarrow> False | Some t \<Rightarrow> js_ge (Num (int n)) t)
                \<or> \<not> nextLink site n
                \<or> \<not> js_le (Num (int (Suc n))) maxPages))"
  using assms
proof (induction site a totalPages maxPages pageNum allReviews vs rule: pages_loop.induct)
  case (1 site a totalPages maxPages pageNum allReviews vs)
  let ?go = "\<lambda>n. blocks site n \<noteq> []
        \<and> \<not> (case totalPages of None \<Rightarrow> False | Some t \<Rightarrow> js_ge (Num (int n)) t)
        \<and> nextLink site n"
  show ?case
  proof (cases "js_le (Num (int pageNum)) maxPages")
    case False
    then show ?thesis by (subst pages_loop.simps) simp
  next
    case True
    show ?thesis
    proof (cases "if pageNum > 1 then outcome (retry_default (goto site pageNum)) else Inr None")
      case (Inl err)
      then have "scraped (pages_loop site a totalPages maxPages pageNum allReviews vs) = Inl err"
        using True by (subst pages_loop.simps) simp
      then show ?thesis using 1(2) by simp
    next
      case (Inr v)
      show ?thesis
      proof (cases "?go pageNum")
        case False
        then have "visited (pages_loop site a totalPages maxPages pageNum allReviews vs)
            = vs @ [pageNum]"
          using True Inr
          by (subst pages_loop.simps)
             (auto simp: Let_def extractReviewsFromPage_def split: option.splits)
        then show ?thesis using False by auto
      next
        case go: True
        then have unfold: "pages_loop site a totalPages maxPages pageNum allReviews vs
            = pages_loop site a totalPages maxPages (Suc pageNum)
                (allReviews @ extractReviewsFromPage site pageNum (name a) (slug a))
                (vs @ [pageNum])"
          using True Inr
          by (subst pages_loop.simps)
             (auto simp: Let_def extractReviewsFromPage_def split: option.splits)
        have nonempty: "length (extractReviewsFromPage site pageNum (name a) (slug a)) \<noteq> 0"
          using go by (simp add: extractReviewsFromPage_def)
        have ntotal: "\<not> (case totalPages of None \<Rightarrow> False
                         | Some tp \<Rightarrow> js_ge (Num (int pageNum)) tp)"
          using go by simp
        have nlink: "\<not> \<not> nextLink site pageNum" using go by simp
        have "visited (pages_loop site a totalPages maxPages (Suc pageNum)
                (allReviews @ extractReviewsFromPage site pageNum (name a) (slug a))
                (vs @ [pageNum])) = vs @ [pageNum]
           \<or> (\<exists>ps n. visited (pages_loop site a totalPages maxPages (Suc pageNum)
                (allReviews @ extractReviewsFromPage site pageNum (name a) (slug a))
                (vs @ [pageNum])) = ps @ [n]
             \<and> (blocks site n = []
                \<or> (case totalPages of None \<Rightarrow> False | Some t \<Rightarrow> js_ge (Num (int n)) t)
                \<or> \<not> nextLink site n
                \<or> \<not> js_le (Num (int (Suc n))) maxPages))"
          using 1(1) [OF True Inr refl nonempty ntotal nlink] 1(2) unfolding unfold by simp
        then show ?thesis
        proof
          assume stay: "visited (pages_loop site a totalPages maxPages (Suc pageNum)
                (allReviews @ extractReviewsFromPage site pageNum (name a) (slug a))
                (vs @ [pageNum])) = vs @ [pageNum]"
          have "\<not> js_le (Num (int (Suc pageNum))) maxPages"
          proof
            assume le: "js_le (Num (int (Suc pageNum))) maxPages"
            obtain k where k: "visited (pages_loop site a totalPages maxPages (Suc pageNum)
                (allReviews @ extractReviewsFromPage site pageNum (name a) (slug a))
                (vs @ [pageNum])) = (vs @ [pageNum]) @ [Suc pageNum..<Suc pageNum + k]"
              "0 < k"
              using pages_loop_visited_range [of site a totalPages maxPages "Suc pageNum"
                  "allReviews @ extractReviewsFromPage site pageNum (name a) (slug a)"
                  "vs @ [pageNum]"] le 1(2)
              unfolding unfold by blast
            then show False using stay by simp
          qed
          then show ?thesis unfolding unfold using stay by blast
        next
          assume "\<exists>ps n. visited (pages_loop site a totalPages maxPages (Suc pageNum)
                (allReviews @ extractReviewsFromPage site pageNum (name a) (slug a))
                (vs @ [pageNum])) = ps @ [n]
             \<and> (blocks site n = []
                \<or> (case totalPages of None \<Rightarrow> False | Some t \<Rightarrow> js_ge (Num (int n)) t)
                \<or> \<not> nextLink site n
                \<or> \<not> js_le (Num (int (Suc n))) maxPages)"
          then show ?thesis unfolding unfold by blast
        qed
      qed
    qed
  qed
qed


text \<open>
  C7. In every iteration the loop tests (a) the empty batch, then (b) the page count,
  then (c) the next link, and leaves at the first test that holds: a page that was
  read and whose batch is empty, or whose number has reached a known \<open>totalPages\<close>,
  or which shows no next link, is the last page read, whatever the other two tests
  say; so an empty batch ends the collection whatever the count announces. Conversely
  the last page read by a run that returns fulfils (a), (b) or (c), or is page 500 of
  a source without a count (the cap of the loop). The pages read are 1, 2, ... with
  no gap. When page 1 has reviews and a next link and page 2 has none, the pages read
  are 1 and 2, with no count or with any count above 10 (which announces a second
  page).
\<close>

theorem scrapeAppReviews_empty_batch_stops:
  "(visited (scrapeAppReviews site a) = ps @ n # qs
      \<and> extractReviewsFromPage site n (name a) (slug a) = [] \<longrightarrow> qs = [])
   \<and> (visited (scrapeAppReviews site a) = ps @ n # qs
      \<and> (\<exists>t. totalPages_of (getTotalReviewCount site) = Some t \<and> js_ge (Num (int n)) t)
      \<longrightarrow> qs = [])
   \<and> (visited (scrapeAppReviews site a) = ps @ n # qs \<and> \<not> nextLink site n \<longrightarrow> qs = [])
   \<and> (visited (scrapeAppReviews site a) = ps @ [n]
      \<and> scraped (scrapeAppReviews site a) = Inr rs
      \<longrightarrow> extractReviewsFromPage site n (name a) (slug a) = []
          \<or> (\<exists>t. totalPages_of (getTotalReviewCount site) = Some t \<and> js_ge (Num (int n)) t)
          \<or> \<not> nextLink site n
          \<or> (getTotalReviewCount site = None \<and> n = 500))
   \<and> visited (scrapeAppReviews site a)
       = [1..<Suc (length (visited (scrapeAppReviews site a)))]
   \<and> (blocks site 1 \<noteq> [] \<and> nextLink site 1 \<and> blocks site 2 = []
        \<and> (\<forall>n. outcome (retry_default (goto site n)) = Inr (Some ()))
        \<and> (getTotalReviewCount site = None
             \<or> (\<exists>totalCount. 10 < totalCount \<and> getTotalReviewCount site = Some (Num totalCount)))
       \<longrightarrow> visited (scrapeAppReviews site a) = [1, 2]
           \<and> scraped (scrapeAppReviews site a)
               = Inr (extractReviewsFromPage site 1 (name a) (slug a)))"
proof -
  define tp where "tp = totalPages_of (getTotalReviewCount site)"
  define mp where "mp = (case tp of Some t \<Rightarrow> t | None \<Rightarrow> Num 500)"
  let ?go = "\<lambda>n. blocks site n \<noteq> []
        \<and> \<not> (case tp of None \<Rightarrow> False | Some t \<Rightarrow> js_ge (Num (int n)) t)
        \<and> nextLink site n"
  consider
    (failed) err where "scrapeAppReviews site a = \<lparr>scraped = Inl err, visited = []\<rparr>"
  | (loop) "scrapeAppReviews site a = pages_loop site a tp mp 1 [] []"
    by (cases "outcome (retry_default (goto site 1))")
       (auto simp: scrapeAppReviews_def Let_def tp_def mp_def)
  note run = this
  have before_last: "list_all ?go (butlast (visited (scrapeAppReviews site a)))"
  proof (cases rule: run)
    case failed
    then show ?thesis by simp
  next
    case loop
    then show ?thesis using pages_loop_go_before_last [of site tp "[]" a mp 1 "[]"] by simp
  qed
  have stops: "qs = []"
    if h: "visited (scrapeAppReviews site a) = ps @ n # qs" "\<not> ?go n" for ps n qs
    using before_last h visited_split_last [of ?go "visited (scrapeAppReviews site a)" ps n qs]
    by blast
  have a: "qs = []"
    if "visited (scrapeAppReviews site a) = ps @ n # qs"
       "extractReviewsFromPage site n (name a) (slug a) = []"
    using that stops [of ps n qs] by (simp add: extractReviewsFromPage_def)
  have b: "qs = []"
    if "visited (scrapeAppReviews site a) = ps @ n # qs"
       "\<exists>t. totalPages_of (getTotalReviewCount site) = Some t \<and> js_ge (Num (int n)) t"
    using that stops [of ps n qs] by (auto simp: tp_def)
  have c: "qs = []"
    if "visited (scrapeAppReviews site a) = ps @ n # qs" "\<not> nextLink site n"
    using that stops [of ps n qs] by simp
  have bound: "list_all (\<lambda>n. js_le (Num (int n)) mp) (visited (scrapeAppReviews site a))"
  proof (cases rule: run)
    case failed
    then show ?thesis by simp
  next
    case loop
    then show ?thesis using pages_loop_visited_bound [of mp "[]" site a tp 1 "[]"] by simp
  qed
  have d: "extractReviewsFromPage site n (name a) (slug a) = []
          \<or> (\<exists>t. totalPages_of (getTotalReviewCount site) = Some t \<and> js_ge (Num (int n)) t)
          \<or> \<not> nextLink site n
          \<or> (getTotalReviewCount site = None \<and> n = 500)"
    if h: "visited (scrapeAppReviews site a) = ps @ [n]"
          "scraped (scrapeAppReviews site a) = Inr rs"
  proof (cases rule: run)
    case failed
    then show ?thesis using h by simp
  next
    case loop
    have le: "js_le (Num (int n)) mp" using bound h(1) by simp
    from pages_loop_last_page [of site a tp mp 1 "[]" "[]" rs] h loop
    have "blocks site n = []
          \<or> (case tp of None \<Rightarrow> False | Some t \<Rightarrow> js_ge (Num (int n)) t)
          \<or> \<not> nextLink site n
          \<or> \<not> js_le (Num (int (Suc n))) mp"
      by auto
    moreover have "(case tp of None \<Rightarrow> False | Some t \<Rightarrow> js_ge (Num (int n)) t)
          \<or> (getTotalReviewCount site = None \<and> n = 500)"
      if nle: "\<not> js_le (Num (int (Suc n))) mp"
    proof (cases tp)
      case None
      then have "getTotalReviewCount site = None" by (simp add: tp_def totalPages_of_def)
      moreover have "n = 500" using le nle None by (simp add: mp_def)
      ultimately show ?thesis by simp
    next
      case (Some t)
      then show ?thesis using le nle by (cases t) (auto simp: mp_def)
    qed
    ultimately show ?thesis by (auto simp: extractReviewsFromPage_def tp_def split: option.splits)
  qed
  have f: "visited (scrapeAppReviews site a)
       = [1..<Suc (length (visited (scrapeAppReviews site a)))]"
  proof (cases rule: run)
    case failed
    then show ?thesis by simp
  next
    case loop
    obtain k where "visited (pages_loop site a tp mp 1 [] []) = [] @ [1..<1 + k]"
      using pages_loop_visited_range [of site a tp mp 1 "[]" "[]"] by blast
    then show ?thesis using loop by simp
  qed
  have ex: "visited (scrapeAppReviews site a) = [1, 2]
           \<and> scraped (scrapeAppReviews site a)
               = Inr (extractReviewsFromPage site 1 (name a) (slug a))"
    if h: "blocks site 1 \<noteq> []" "nextLink site 1" "blocks site 2 = []"
          "\<forall>n. outcome (retry_default (goto site n)) = Inr (Some ())"
          "getTotalReviewCount site = None
             \<or> (\<exists>totalCount. 10 < totalCount \<and> getTotalReviewCount site = Some (Num totalCount))"
  proof -
    let ?x = "\<lambda>n. extractReviewsFromPage site n (name a) (slug a)"
    have tp_cases: "tp = None \<or> (\<exists>t. 2 \<le> t \<and> tp = Some (Num t))"
    proof -
      from h(5) show ?thesis
      proof
        assume "getTotalReviewCount site = None"
        then show ?thesis by (simp add: tp_def totalPages_of_def)
      next
        assume "\<exists>totalCount. 10 < totalCount \<and> getTotalReviewCount site = Some (Num totalCount)"
        then obtain totalCount where t: "10 < totalCount" "getTotalReviewCount site = Some (Num totalCount)"
          by blast
        have "2 \<le> - ((- totalCount) div 10)" using t(1) by linarith
        then show ?thesis using t(2) by (simp add: tp_def totalPages_of_def reviewsPerPage_def)
      qed
    qed
    have le1: "js_le (Num (int 1)) mp" and le2: "js_le (Num (int (Suc 1))) mp"
      and nge: "\<not> (case tp of None \<Rightarrow> False | Some t \<Rightarrow> js_ge (Num (int 1)) t)"
      using tp_cases by (auto simp: mp_def)
    have b2: "blocks site (Suc 1) = []" using h(3) by (simp add: numeral_2_eq_2)
    have start: "scrapeAppReviews site a = pages_loop site a tp mp 1 [] []"
      using h(4) by (simp add: scrapeAppReviews_def tp_def mp_def Let_def)
    have s1: "pages_loop site a tp mp 1 [] [] =
              pages_loop site a tp mp (Suc 1) ([] @ ?x 1) ([] @ [1])"
      using h(1,2,4) le1 nge by (intro pages_loop_continue) auto
    have s2: "pages_loop site a tp mp (Suc 1) ([] @ ?x 1) ([] @ [1]) =
              \<lparr>scraped = Inr ([] @ ?x 1), visited = ([] @ [1]) @ [Suc 1]\<rparr>"
      using h(4) le2 b2 by (intro pages_loop_stop_empty) auto
    have run: "scrapeAppReviews site a =
              \<lparr>scraped = Inr ([] @ ?x 1), visited = ([] @ [1]) @ [Suc 1]\<rparr>"
      by (simp only: start s1 s2)
    show ?thesis by (simp add: run numeral_2_eq_2)
  qed
  show ?thesis using a b c d f ex by blast
qed

lemma retry_default_first_try:
  "fn (Suc 0) = Inr v \<Longrightarrow> outcome (retry_default fn) = Inr (Some v)"
  unfolding retry_default_def retry_def by (subst retry_loop.simps) simp

theorem scrapeAppReviews_stops_at_totalPages_witness:
  "getTotalReviewCount endless_site = Some (Num 25)
   \<and> visited (scrapeAppReviews endless_site printful) = [1, 2, 3]
   \<and> list_all (\<lambda>n. int n \<le> 3) (visited (scrapeAppReviews endless_site printful))"
  using scrapeAppReviews_stops_at_totalPages [of endless_site 25 printful]
  by (simp add: getTotalReviewCount_def endless_site_def reachable_def
      retry_default_first_try reviewsPerPage_def)

theorem scrapeAppReviews_empty_batch_stops_witness:
  "visited (scrapeAppReviews two_review_site printful) = [1, 2]
   \<and> extractReviewsFromPage two_review_site 2 (name printful) (slug printful) = []
   \<and> nextLink two_review_site 2
   \<and> totalPages_of (getTotalReviewCount two_review_site) = Some (Num 100)
   \<and> scraped (scrapeAppReviews two_review_site printful)
       = Inr [sample_review printful ''good'', sample_review printful ''bad'']"
  using scrapeAppReviews_empty_batch_stops [of two_review_site printful "[1]" 2 "[]"
      "[sample_review printful ''good'', sample_review printful ''bad'']"]
  by (simp add: getTotalReviewCount_def two_review_site_def reachable_def totalPages_of_def
      reviewsPerPage_def retry_default_first_try extractReviewsFromPage_def sample_review_def)

section \<open>Properties of the checkpoint store\<close>

text \<open>
  C2 (as amended). \<open>loadCheckpoint\<close> returns the supplied default when the file is
  absent and the parsed value when the file holds JSON text (in particular what
  \<open>saveCheckpoint\<close> wrote under that name); when the file exists and cannot be
  parsed or read, the error of \<open>JSON.parse\<close> or of the read is raised: there is
  no \<open>try\<close> around them, and the default is for the absent file only.
\<close>

theorem loadCheckpoint_outcomes:
  "(data_dir d filename = None \<longrightarrow> loadCheckpoint d filename defaultValue = Inr defaultValue)
   \<and> (data_dir d filename = Some (Json v) \<longrightarrow> loadCheckpoint d filename defaultValue = Inr v)
   \<and> (data_dir d filename = Some Malformed
        \<longrightarrow> loadCheckpoint d filename defaultValue = Inl SyntaxError)
   \<and> (data_dir d filename = Some Unreadable
        \<longrightarrow> loadCheckpoint d filename defaultValue = Inl IOError)
   \<and> loadCheckpoint (saveCheckpoint d filename v) filename defaultValue = Inr v"
  by (simp add: loadCheckpoint_def saveCheckpoint_def data_dir_def files_write_file)

lemma data_dir_put_file: "data_dir (put_file d filename node) filename = Some node"
  by (simp add: data_dir_def put_file_def files_write_file)

lemma data_dir_empty_disk: "data_dir empty_disk filename = None"
  by (simp add: data_dir_def empty_disk_def)

theorem loadCheckpoint_outcomes_witness:
  "loadCheckpoint empty_disk ''apps.json'' (Arr []) = Inr (Arr [])
   \<and> loadCheckpoint (put_file empty_disk ''apps.json'' (Json (Arr [Str ''printful''])))
        ''apps.json'' (Arr []) = Inr (Arr [Str ''printful''])
   \<and> loadCheckpoint (put_file empty_disk ''apps.json'' Malformed)
        ''apps.json'' (Arr []) = Inl SyntaxError
   \<and> loadCheckpoint (put_file empty_disk ''apps.json'' Unreadable)
        ''apps.json'' (Arr []) = Inl IOError"
  using loadCheckpoint_outcomes [of empty_disk "''apps.json''" "Arr []"]
    loadCheckpoint_outcomes [of "put_file empty_disk ''apps.json'' (Json (Arr [Str ''printful'']))"
      "''apps.json''" "Arr []" "Arr [Str ''printful'']"]
    loadCheckpoint_outcomes [of "put_file empty_disk ''apps.json'' Malformed"
      "''apps.json''" "Arr []"]
    loadCheckpoint_outcomes [of "put_file empty_disk ''apps.json'' Unreadable"
      "''apps.json''" "Arr []"]
  by (simp add: data_dir_put_file data_dir_empty_disk)

text \<open>
  The claim as stated fails on a file that exists and does not parse: the call raises
  instead of returning the default.
\<close>

theorem loadCheckpoint_raises_counterexample:
  "loadCheckpoint (put_file empty_disk ''scraped_app_slugs.json'' Malformed)
     ''scraped_app_slugs.json'' (Arr []) = Inl SyntaxError
   \<and> loadCheckpoint (put_file empty_disk ''scraped_app_slugs.json'' Malformed)
     ''scraped_app_slugs.json'' (Arr []) \<noteq> Inr (Arr [])"
  by (simp add: loadCheckpoint_def data_dir_put_file)

section \<open>Properties of discovery\<close>

declare collect_loop.simps [simp del]

text \<open>
  C4. The page loop of \<open>collectAllApps\<close> is to be bounded by a positive hard maximum
  page count, so that at least the first listing page is extracted inside the loop.
  The code does not meet this. With config.js as it is,
  \<open>SEARCH.maxPages\<close> is \<open>undefined\<close> and the guard \<open>pageNum <= maxPages\<close> is false
  at \<open>pageNum = 1\<close>: whatever the catalog shows, the loop body never runs, no listing
  page is extracted in it and \<open>collectAllApps\<close> returns the empty list.
\<close>

theorem collectAllApps_extracts_no_page:
  "collectAllApps SEARCH site baseUrl = \<lparr>collected = Inr [], listed = [], current = baseUrl\<rparr>"
  unfolding collectAllApps_def by (subst collect_loop.simps) (simp add: SEARCH_def)

lemma sample_app_sel [simp]:
  "slug (sample_app appName appSlug) = appSlug" "name (sample_app appName appSlug) = appName"
  by (simp_all add: sample_app_def)

lemma second_page_url_neq: "second_page_url \<noteq> URL"
  by (simp add: second_page_url_def URL_def)

text \<open>
  C9. Discovery is to keep the first occurrence of every slug in first-seen order: two
  listing pages with the slugs \<open>a, b\<close> and \<open>b, c\<close> are to give the entity list
  \<open>a, b, c\<close>. The code does not meet this. With config.js as it is, \<open>collectAllApps\<close> returns
  nothing (see C4), \<open>discoverApps\<close> falls back to one extraction of the page it is
  on, and the list persisted and returned is \<open>a, b\<close>: the second page is never
  opened. The loop that removes duplicates is not at fault.
\<close>

theorem discoverApps_two_pages_first_only:
  "discoverApps SEARCH empty_disk two_page_catalog default_options =
     \<lparr>returned = Inr (Arr [AppObj (sample_app ''A'' ''a''), AppObj (sample_app ''B'' ''b'')]),
      events = [Launch,
                SaveCheckpoint ''apps.json''
                  (Arr [AppObj (sample_app ''A'' ''a''), AppObj (sample_app ''B'' ''b'')]),
                Close]\<rparr>"
proof -
  have c: "collectAllApps SEARCH two_page_catalog URL =
        \<lparr>collected = Inr [], listed = [], current = URL\<rparr>"
    unfolding collectAllApps_def by (subst collect_loop.simps) (simp add: SEARCH_def)
  have nav: "outcome (retry_default (navigate two_page_catalog URL)) = Inr (Some ())"
    by (rule retry_default_first_try) (simp add: two_page_catalog_def reachable_def)
  have ld: "loadCheckpoint empty_disk ''apps.json'' Null = Inr Null"
    by (simp add: loadCheckpoint_def data_dir_empty_disk)
  have cards: "cards (listing two_page_catalog URL) = [sample_app ''A'' ''a'', sample_app ''B'' ''b'']"
    by (simp add: two_page_catalog_def)
  have u: "unique_loop [sample_app ''A'' ''a'', sample_app ''B'' ''b''] [] [] =
        [sample_app ''A'' ''a'', sample_app ''B'' ''b'']"
    by simp
  show ?thesis
    by (simp add: discoverApps_def default_options_def ld nav c cards u)
qed

text \<open>
  With a configuration that defines both properties, the same catalog gives \<open>a, b, c\<close>.
\<close>

lemma discoverApps_two_pages_with_paging:
  "discoverApps paging_config empty_disk two_page_catalog default_options =
     \<lparr>returned = Inr (Arr [AppObj (sample_app ''A'' ''a''), AppObj (sample_app ''B'' ''b''),
                          AppObj (sample_app ''C'' ''c'')]),
      events = [Launch,
                SaveCheckpoint ''apps.json''
                  (Arr [AppObj (sample_app ''A'' ''a''), AppObj (sample_app ''B'' ''b''),
                        AppObj (sample_app ''C'' ''c'')]),
                Close]\<rparr>"
proof -
  let ?a = "sample_app ''A'' ''a''" and ?b = "sample_app ''B'' ''b''" and ?c = "sample_app ''C'' ''c''"
  have nav: "\<And>url. outcome (retry_default (navigate two_page_catalog url)) = Inr (Some ())"
    by (rule retry_default_first_try) (simp add: two_page_catalog_def reachable_def)
  have ld: "loadCheckpoint empty_disk ''apps.json'' Null = Inr Null"
    by (simp add: loadCheckpoint_def data_dir_empty_disk)
  have p1: "listing two_page_catalog URL =
      \<lparr>cards = [?a, ?b],
       query_href = (\<lambda>sel. if sel = next_selector then Some second_page_url else None)\<rparr>"
    by (simp add: two_page_catalog_def)
  have p2: "listing two_page_catalog second_page_url =
      \<lparr>cards = [?b, ?c], query_href = (\<lambda>sel. None)\<rparr>"
    by (simp add: two_page_catalog_def second_page_url_neq)
  have m1: "merge_batch [?a, ?b] [] [] 0 = ([?a, ?b], [''a'', ''b''], 2)"
    by simp
  have m2: "merge_batch [?b, ?c] [?a, ?b] [''a'', ''b''] 0 = ([?a, ?b, ?c], [''a'', ''b'', ''c''], 1)"
    by simp
  have ne: "second_page_url \<noteq> []" by (simp add: second_page_url_def)
  have s1: "collect_loop paging_config two_page_catalog URL 1 [] [] [] =
            collect_loop paging_config two_page_catalog second_page_url (Suc 1) [?a, ?b] [''a'', ''b''] [1]"
    by (subst collect_loop.simps) (simp add: paging_config_def p1 m1 ne nav)
  have s2: "collect_loop paging_config two_page_catalog second_page_url (Suc 1) [?a, ?b] [''a'', ''b''] [1] =
            \<lparr>collected = Inr [?a, ?b, ?c], listed = [1, Suc 1], current = second_page_url\<rparr>"
    by (subst collect_loop.simps) (simp add: paging_config_def p2 m2)
  have c: "collectAllApps paging_config two_page_catalog URL =
            \<lparr>collected = Inr [?a, ?b, ?c], listed = [1, Suc 1], current = second_page_url\<rparr>"
    by (simp only: collectAllApps_def s1 s2)
  have u: "unique_loop [?a, ?b, ?c] [] [] = [?a, ?b, ?c]"
    by simp
  show ?thesis
    by (simp add: discoverApps_def default_options_def ld nav c u)
qed

text \<open>
  The loop that removes duplicates keeps, for every slug, the first entity that has it,
  in the order of the list it is given.
\<close>

lemma map_of_None_fst: "(map_of m k = None) = (k \<notin> fst ` set m)"
  by (simp add: map_of_eq_None_iff)

lemma unique_loop_invariant:
  assumes "fst ` set bySlug = slug ` set unique" and "distinct (map slug unique)"
  shows "distinct (map slug (unique_loop apps unique bySlug))
       \<and> slug ` set (unique_loop apps unique bySlug) = slug ` set unique \<union> slug ` set apps
       \<and> (\<exists>kept. unique_loop apps unique bySlug = unique @ kept \<and> subseq kept apps
            \<and> (\<forall>a\<in>set kept. slug a \<notin> slug ` set unique
                  \<and> find (\<lambda>b. slug b = slug a) apps = Some a))"
  using assms
proof (induction apps arbitrary: unique bySlug)
  case Nil
  then show ?case by simp
next
  case (Cons a apps)
  show ?case
  proof (cases "slug a \<in> slug ` set unique")
    case True
    then have step: "unique_loop (a # apps) unique bySlug = unique_loop apps unique bySlug"
      using Cons.prems(1) by (simp add: map_of_None_fst)
    from Cons.IH [OF Cons.prems] obtain kept where
      k: "distinct (map slug (unique_loop apps unique bySlug))"
         "slug ` set (unique_loop apps unique bySlug) = slug ` set unique \<union> slug ` set apps"
         "unique_loop apps unique bySlug = unique @ kept" "subseq kept apps"
         "\<forall>b\<in>set kept. slug b \<notin> slug ` set unique
              \<and> find (\<lambda>c. slug c = slug b) apps = Some b" by blast
    have "\<forall>b\<in>set kept. slug b \<notin> slug ` set unique
              \<and> find (\<lambda>c. slug c = slug b) (a # apps) = Some b"
      using k(5) True by auto
    moreover have "subseq kept (a # apps)" using k(4) by (rule list_emb_Cons)
    ultimately show ?thesis unfolding step using k(1,2,3) True by auto
  next
    case False
    then have step: "unique_loop (a # apps) unique bySlug =
                     unique_loop apps (unique @ [a]) (bySlug @ [(slug a, a)])"
      using Cons.prems(1) by (simp add: map_of_None_fst)
    have p1: "fst ` set (bySlug @ [(slug a, a)]) = slug ` set (unique @ [a])"
      using Cons.prems(1) by auto
    have p2: "distinct (map slug (unique @ [a]))" using Cons.prems(2) False by auto
    from Cons.IH [OF p1 p2] obtain kept where
      k: "distinct (map slug (unique_loop apps (unique @ [a]) (bySlug @ [(slug a, a)])))"
         "slug ` set (unique_loop apps (unique @ [a]) (bySlug @ [(slug a, a)]))
            = slug ` set (unique @ [a]) \<union> slug ` set apps"
         "unique_loop apps (unique @ [a]) (bySlug @ [(slug a, a)]) = (unique @ [a]) @ kept"
         "subseq kept apps"
         "\<forall>b\<in>set kept. slug b \<notin> slug ` set (unique @ [a])
              \<and> find (\<lambda>c. slug c = slug b) apps = Some b" by blast
    have "unique_loop (a # apps) unique bySlug = unique @ (a # kept)"
      unfolding step k(3) by simp
    moreover have "subseq (a # kept) (a # apps)" using k(4) by simp
    moreover have "\<forall>b\<in>set (a # kept). slug b \<notin> slug ` set unique
              \<and> find (\<lambda>c. slug c = slug b) (a # apps) = Some b"
      using k(5) False by auto
    moreover have "slug ` set (unique_loop (a # apps) unique bySlug)
                     = slug ` set unique \<union> slug ` set (a # apps)"
      unfolding step k(2) by auto
    ultimately show ?thesis using k(1) unfolding step by blast
  qed
qed

lemma unique_loop_first_occurrences:
  "distinct (map slug (unique_loop apps [] []))
   \<and> slug ` set (unique_loop apps [] []) = slug ` set apps
   \<and> subseq (unique_loop apps [] []) apps
   \<and> (\<forall>a\<in>set (unique_loop apps [] []). find (\<lambda>b. slug b = slug a) apps = Some a)"
  using unique_loop_invariant [of "[]" "[]" apps] by auto

section \<open>Properties of scrapeAllReviews\<close>

lemma set_Set_add: "set (Set_add st v) = insert v (set st)"
  by (auto simp: Set_add_def Set_has_def)

lemma set_foldl_Set_add: "set (foldl Set_add acc xs) = set acc \<union> set xs"
  by (induction xs arbitrary: acc) (auto simp: set_Set_add)

lemma Set_has_new_Set: "Set_has (new_Set xs) (Str s) = (Str s \<in> set xs)"
  by (simp add: Set_has_def new_Set_def set_foldl_Set_add)

lemma scraped_slugs_append: "scraped_slugs (xs @ ys) = scraped_slugs xs @ scraped_slugs ys"
  by (induction xs rule: scraped_slugs.induct) auto




lemma process_loop_fetched:
  "\<exists>k. scraped_slugs (events (process_loop web i tp m st evs))
        = scraped_slugs evs @ map slug (take k tp)"
proof (induction tp arbitrary: i m st evs)
  case Nil
  then show ?case by (simp add: scraped_slugs_append)
next
  case (Cons a tp)
  show ?case
  proof (cases "scraped (scrapeAppReviews (web i) a)")
    case (Inl err)
    then have "scraped_slugs (events (process_loop web i (a # tp) m st evs))
        = scraped_slugs evs @ map slug (take 1 (a # tp))"
      by (simp add: scraped_slugs_append)
    then show ?thesis by blast
  next
    case (Inr rv)
    let ?m = "Map_set m (Some (slug a)) (map ReviewObj rv)"
    let ?st = "Set_add st (Str (slug a))"
    let ?evs = "evs @ [Scrape (slug a),
                        SaveCheckpoint ''scraped_app_slugs.json'' (Arr ?st),
                        SaveAppReviews (slug a) (Arr (map ReviewObj rv)),
                        SaveCheckpoint ''all_reviews.json'' (Arr (flatten ?m))]"
    from Cons.IH [of "Suc i" ?m ?st ?evs] obtain k where
      k: "scraped_slugs (events (process_loop web (Suc i) tp ?m ?st ?evs))
            = scraped_slugs ?evs @ map slug (take k tp)" by blast
    have "scraped_slugs (events (process_loop web i (a # tp) m st evs))
        = scraped_slugs evs @ map slug (take (Suc k) (a # tp))"
      using Inr k by (simp add: Let_def scraped_slugs_append)
    then show ?thesis by blast
  qed
qed

lemma process_loop_fetched_all:
  "returned (process_loop web i tp m st evs) = Inr v \<Longrightarrow>
   scraped_slugs (events (process_loop web i tp m st evs)) = scraped_slugs evs @ map slug tp"
proof (induction tp arbitrary: i m st evs)
  case Nil
  then show ?case by (simp add: scraped_slugs_append)
next
  case (Cons a tp)
  show ?case
  proof (cases "scraped (scrapeAppReviews (web i) a)")
    case (Inl err)
    then show ?thesis using Cons.prems by simp
  next
    case (Inr rv)
    then show ?thesis using Cons.prems Cons.IH
      by (simp add: Let_def scraped_slugs_append)
  qed
qed











lemma scrapeAppReviews_two_review_site:
  "scrapeAppReviews two_review_site a =
     \<lparr>scraped = Inr [sample_review a ''good'', sample_review a ''bad''], visited = [1, 2]\<rparr>"
proof -
  let ?tp = "Some (Num 100)" and ?mp = "Num 100"
  have nav: "\<And>n. outcome (retry_default (goto two_review_site n)) = Inr (Some ())"
    by (rule retry_default_first_try) (simp add: two_review_site_def reachable_def)
  have cnt: "getTotalReviewCount two_review_site = Some (Num 1000)"
    by (simp add: getTotalReviewCount_def two_review_site_def)
  have start: "scrapeAppReviews two_review_site a = pages_loop two_review_site a ?tp ?mp 1 [] []"
    by (simp add: scrapeAppReviews_def nav cnt totalPages_of_def reviewsPerPage_def)
  have s1: "pages_loop two_review_site a ?tp ?mp 1 [] [] =
            pages_loop two_review_site a ?tp ?mp (Suc 1)
              ([] @ extractReviewsFromPage two_review_site 1 (name a) (slug a)) ([] @ [1])"
    by (rule pages_loop_continue [OF _ nav]) (simp_all add: two_review_site_def)
  have s2: "pages_loop two_review_site a ?tp ?mp (Suc 1)
              ([] @ extractReviewsFromPage two_review_site 1 (name a) (slug a)) ([] @ [1]) =
            \<lparr>scraped = Inr ([] @ extractReviewsFromPage two_review_site 1 (name a) (slug a)),
             visited = ([] @ [1]) @ [Suc 1]\<rparr>"
    by (rule pages_loop_stop_empty [OF _ nav]) (simp_all add: two_review_site_def)
  have run: "scrapeAppReviews two_review_site a =
            \<lparr>scraped = Inr ([] @ extractReviewsFromPage two_review_site 1 (name a) (slug a)),
             visited = ([] @ [1]) @ [Suc 1]\<rparr>"
    by (simp only: start s1 s2)
  have ex: "extractReviewsFromPage two_review_site 1 (name a) (slug a) =
            [sample_review a ''good'', sample_review a ''bad'']"
    by (simp add: extractReviewsFromPage_def two_review_site_def sample_review_def)
  show ?thesis unfolding run ex by (simp add: numeral_2_eq_2)
qed

lemma scrapeAppReviews_no_review_site:
  "scrapeAppReviews no_review_site a = \<lparr>scraped = Inr [], visited = [1]\<rparr>"
proof -
  have nav: "\<And>n. outcome (retry_default (goto no_review_site n)) = Inr (Some ())"
    by (rule retry_default_first_try) (simp add: no_review_site_def reachable_def)
  have cnt: "getTotalReviewCount no_review_site = None"
    by (simp add: getTotalReviewCount_def no_review_site_def)
  have start: "scrapeAppReviews no_review_site a = pages_loop no_review_site a None (Num 500) 1 [] []"
    by (simp add: scrapeAppReviews_def nav cnt totalPages_of_def)
  have s1: "pages_loop no_review_site a None (Num 500) 1 [] [] =
            \<lparr>scraped = Inr [], visited = [] @ [1]\<rparr>"
    by (rule pages_loop_stop_empty [OF _ nav]) (simp_all add: no_review_site_def)
  show ?thesis unfolding start s1 by simp
qed

lemma files_empty_disk [simp]: "files empty_disk p = None"
  by (simp add: empty_disk_def)

lemma DATA_DIR_put_file [simp]: "DATA_DIR (put_file d filename node) = DATA_DIR d"
  by (simp add: put_file_def)

lemma load_empty_disk: "loadCheckpoint empty_disk filename defaultValue = Inr defaultValue"
  by (simp add: loadCheckpoint_def data_dir_empty_disk)

lemma load_stale_disk:
  "loadCheckpoint stale_disk ''scraped_app_slugs.json'' defaultValue = Inr defaultValue"
  "loadCheckpoint stale_disk ''all_reviews.json'' defaultValue =
     Inr (Arr [ReviewObj (sample_review (sample_app ''B'' ''b'') ''one''),
               ReviewObj (sample_review (sample_app ''B'' ''b'') ''two'')])"
  by (simp_all add: loadCheckpoint_def stale_disk_def data_dir_def put_file_def
      files_write_file)

lemma load_resumed_disk:
  "loadCheckpoint resumed_disk ''scraped_app_slugs.json'' defaultValue =
     Inr (Arr [Str ''a'', Str ''b''])"
  "loadCheckpoint resumed_disk ''all_reviews.json'' defaultValue =
     Inr (Arr [ReviewObj (sample_review (sample_app ''A'' ''a'') ''one''),
               ReviewObj (sample_review (sample_app ''B'' ''b'') ''two'')])"
  by (simp_all add: loadCheckpoint_def resumed_disk_def data_dir_def put_file_def
      files_write_file)

lemma sample_paths:
  "REVIEWS_DIR d = DATA_DIR d @ [''reviews'']"
  "path_join dir ''printful.json'' = dir @ [''printful.json'']"
  "path_join dir ''a.json'' = dir @ [''a.json'']"
  "path_join dir ''b.json'' = dir @ [''b.json'']"
  "path_join dir ''c.json'' = dir @ [''c.json'']"
  by (simp_all add: REVIEWS_DIR_def path_join_plain)


lemmas run_eval =
  scrapeAllReviews_def default_options_def load_empty_disk load_stale_disk
  load_resumed_disk new_Set_def
  select_toProcess_def Set_has_def Set_add_def Let_def flatten_def
  scrapeAppReviews_two_review_site scrapeAppReviews_no_review_site



lemma select_toProcess_pending:
  assumes "startFromSlug opts = None \<or> startFromSlug opts = Some []"
  shows "select_toProcess opts (new_Set xs) apps = filter (\<lambda>a. Str (slug a) \<notin> set xs) apps"
  using assms by (auto simp: select_toProcess_def Set_has_new_Set)

text \<open>
  C8 (as amended). On a run that resumes and is given no \<open>startFromSlug\<close> (\<open>null\<close>
  or the empty string), the entities fetched are those whose slug is not in the loaded
  list of scraped slugs, in the order of the entity list: a prefix of them, and all of
  them when the run returns a value (a fetch that fails ends the run). When no
  such entity is left and the entity list is not empty, the run returns what
  \<open>loadCheckpoint('all_reviews.json', [])\<close> gives and does nothing else: no browser
  is launched.
\<close>

theorem scrapeAllReviews_resume:
  assumes "resume opts"
    and "startFromSlug opts = None \<or> startFromSlug opts = Some []"
    and "loadCheckpoint d ''scraped_app_slugs.json'' (Arr []) = Inr doc"
  shows "prefix (scraped_slugs (events (scrapeAllReviews d web apps opts)))
           (map slug (filter (\<lambda>a. Str (slug a) \<notin> set (array_or_empty doc)) apps))
       \<and> ((\<exists>v. returned (scrapeAllReviews d web apps opts) = Inr v) \<longrightarrow>
            scraped_slugs (events (scrapeAllReviews d web apps opts))
              = map slug (filter (\<lambda>a. Str (slug a) \<notin> set (array_or_empty doc)) apps))
       \<and> (filter (\<lambda>a. Str (slug a) \<notin> set (array_or_empty doc)) apps = [] \<and> apps \<noteq> [] \<longrightarrow>
            scrapeAllReviews d web apps opts
              = \<lparr>returned = loadCheckpoint d ''all_reviews.json'' (Arr []), events = []\<rparr>)"
proof -
  let ?run = "scrapeAllReviews d web apps opts"
  define st where "st = new_Set (array_or_empty doc)"
  define tp where "tp = filter (\<lambda>a. Str (slug a) \<notin> set (array_or_empty doc)) apps"
  have sel: "select_toProcess opts st apps = tp"
    unfolding st_def tp_def using assms(2) by (rule select_toProcess_pending)
  have fast: "?run = \<lparr>returned = loadCheckpoint d ''all_reviews.json'' (Arr []), events = []\<rparr>"
    if "tp = []" "apps \<noteq> []"
    using that assms(1,3) sel by (simp add: scrapeAllReviews_def Let_def st_def)
  have "prefix (scraped_slugs (events ?run)) (map slug tp)
      \<and> ((\<exists>v. returned ?run = Inr v) \<longrightarrow> scraped_slugs (events ?run) = map slug tp)"
  proof (cases "length tp = 0 \<and> length apps > 0")
    case True
    then have "events ?run = []" "tp = []" using fast by simp_all
    then show ?thesis by simp
  next
    case slow: False
    show ?thesis
    proof (cases "loadCheckpoint d ''all_reviews.json'' (Arr [])")
      case (Inl err)
      then have "?run = \<lparr>returned = Inl err, events = [Launch]\<rparr>"
        using assms(1,3) sel slow by (simp add: scrapeAllReviews_def Let_def st_def)
      then show ?thesis by simp
    next
      case ld: (Inr allReviews)
      show ?thesis
      proof (cases "forEach_by_slug allReviews")
        case (Inl err)
        then have "?run = \<lparr>returned = Inl err, events = [Launch]\<rparr>"
          using assms(1,3) sel slow ld by (simp add: scrapeAllReviews_def Let_def st_def)
        then show ?thesis by simp
      next
        case (Inr m)
        have run: "?run = process_loop web 0 tp m st [Launch]"
          using assms(1,3) sel slow ld Inr by (simp add: scrapeAllReviews_def Let_def st_def)
        obtain k where "scraped_slugs (events (process_loop web 0 tp m st [Launch]))
            = scraped_slugs [Launch] @ map slug (take k tp)"
          using process_loop_fetched by blast
        then have "scraped_slugs (events ?run) = take k (map slug tp)"
          using run by (simp add: take_map)
        then have p: "prefix (scraped_slugs (events ?run)) (map slug tp)"
          by (simp add: take_is_prefix)
        have "scraped_slugs (events ?run) = map slug tp" if "returned ?run = Inr v" for v
          using process_loop_fetched_all [of web 0 tp m st "[Launch]" v] that run by simp
        then show ?thesis using p by blast
      qed
    qed
  qed
  then show ?thesis using fast unfolding tp_def by blast
qed

theorem scrapeAllReviews_resume_witness:
  "scraped_slugs (events (scrapeAllReviews resumed_disk (\<lambda>i. two_review_site)
      [sample_app ''A'' ''a'', sample_app ''B'' ''b'', sample_app ''C'' ''c''] default_options))
     = [''c'']
   \<and> scrapeAllReviews resumed_disk (\<lambda>i. two_review_site)
      [sample_app ''A'' ''a'', sample_app ''B'' ''b''] default_options
     = \<lparr>returned = Inr (Arr [ReviewObj (sample_review (sample_app ''A'' ''a'') ''one''),
                             ReviewObj (sample_review (sample_app ''B'' ''b'') ''two'')]),
        events = []\<rparr>"
  using scrapeAllReviews_resume [of default_options resumed_disk "Arr [Str ''a'', Str ''b'']"
      "\<lambda>i. two_review_site"
      "[sample_app ''A'' ''a'', sample_app ''B'' ''b'', sample_app ''C'' ''c'']"]
    scrapeAllReviews_resume [of default_options resumed_disk "Arr [Str ''a'', Str ''b'']"
      "\<lambda>i. two_review_site" "[sample_app ''A'' ''a'', sample_app ''B'' ''b'']"]
  by (simp add: run_eval)

text \<open>
  With \<open>startFromSlug\<close> the entity of that slug is fetched again although it is in
  the loaded list: with \<open>a\<close> and \<open>b\<close> scraped and the entities \<open>a, b, c\<close>, a run
  started from \<open>a\<close> fetches \<open>a\<close> and \<open>c\<close>.
\<close>

theorem scrapeAllReviews_startFromSlug_counterexample:
  "scraped_slugs (events (scrapeAllReviews resumed_disk (\<lambda>i. two_review_site)
      [sample_app ''A'' ''a'', sample_app ''B'' ''b'', sample_app ''C'' ''c'']
      (default_options\<lparr>startFromSlug := Some ''a''\<rparr>)))
     = [''a'', ''c'']"
  by (simp add: run_eval)

text \<open>
  C1. The slug of an entity should reach \<open>scraped_app_slugs.json\<close> only after the
  per-app file and \<open>all_reviews.json\<close> are written. The loop writes
  \<open>scraped_app_slugs.json\<close> first: in the run below on an empty disk the events are
  the save of the slugs, then of the per-app file, then of the combined checkpoint. A
  run killed after the first of the three leaves \<open>printful\<close> marked scraped with no
  per-app file and no combined checkpoint, and the next run on that disk returns no
  review and fetches nothing.
\<close>

theorem slug_marked_before_records_written:
  "events (scrapeAllReviews empty_disk (\<lambda>i. two_review_site) [printful] default_options) =
     [Launch,
      Scrape ''printful'',
      SaveCheckpoint ''scraped_app_slugs.json'' (Arr [Str ''printful'']),
      SaveAppReviews ''printful''
        (Arr [ReviewObj (sample_review printful ''good''),
              ReviewObj (sample_review printful ''bad'')]),
      SaveCheckpoint ''all_reviews.json''
        (Arr [ReviewObj (sample_review printful ''good''),
              ReviewObj (sample_review printful ''bad'')]),
      Close]
   \<and> data_dir (disk_after empty_disk (take 3 (events (scrapeAllReviews empty_disk
          (\<lambda>i. two_review_site) [printful] default_options)))) ''scraped_app_slugs.json''
       = Some (Json (Arr [Str ''printful'']))
   \<and> reviews_dir (disk_after empty_disk (take 3 (events (scrapeAllReviews empty_disk
          (\<lambda>i. two_review_site) [printful] default_options)))) ''printful'' = None
   \<and> data_dir (disk_after empty_disk (take 3 (events (scrapeAllReviews empty_disk
          (\<lambda>i. two_review_site) [printful] default_options)))) ''all_reviews.json'' = None
   \<and> scrapeAllReviews (disk_after empty_disk (take 3 (events (scrapeAllReviews empty_disk
          (\<lambda>i. two_review_site) [printful] default_options))))
        (\<lambda>i. two_review_site) [printful] default_options
       = \<lparr>returned = Inr (Arr []), events = []\<rparr>"
proof -
  have ev: "events (scrapeAllReviews empty_disk (\<lambda>i. two_review_site) [printful] default_options) =
     [Launch,
      Scrape ''printful'',
      SaveCheckpoint ''scraped_app_slugs.json'' (Arr [Str ''printful'']),
      SaveAppReviews ''printful''
        (Arr [ReviewObj (sample_review printful ''good''),
              ReviewObj (sample_review printful ''bad'')]),
      SaveCheckpoint ''all_reviews.json''
        (Arr [ReviewObj (sample_review printful ''good''),
              ReviewObj (sample_review printful ''bad'')]),
      Close]"
    by (simp add: run_eval printful_def)
  have d: "disk_after empty_disk (take 3 (events (scrapeAllReviews empty_disk
          (\<lambda>i. two_review_site) [printful] default_options)))
        = saveCheckpoint empty_disk ''scraped_app_slugs.json'' (Arr [Str ''printful''])"
    unfolding ev by (simp add: disk_after_def)
  let ?d = "saveCheckpoint empty_disk ''scraped_app_slugs.json'' (Arr [Str ''printful''])"
  have look: "data_dir ?d ''scraped_app_slugs.json'' = Some (Json (Arr [Str ''printful'']))"
      "reviews_dir ?d ''printful'' = None" "data_dir ?d ''all_reviews.json'' = None"
    by (simp_all add: data_dir_def reviews_dir_def saveCheckpoint_def files_write_file
        sample_paths strict_prefix_def prefix_def files_empty_disk)
  have ld: "loadCheckpoint ?d ''scraped_app_slugs.json'' (Arr []) = Inr (Arr [Str ''printful''])"
      "loadCheckpoint ?d ''all_reviews.json'' (Arr []) = Inr (Arr [])"
    by (simp_all add: loadCheckpoint_def look)
  have again: "scrapeAllReviews ?d (\<lambda>i. two_review_site) [printful] default_options
       = \<lparr>returned = Inr (Arr []), events = []\<rparr>"
    by (simp add: scrapeAllReviews_def default_options_def ld new_Set_def select_toProcess_def
        Set_has_def Set_add_def Let_def printful_def)
  show ?thesis unfolding d using ev look again by simp
qed


end
